theory Spec2Isabelle
  imports Main "HOL-Library.Word"
begin

section \<open>The benchmark sweep driver \<^verbatim>\<open>run.py\<close>\<close>

text \<open>
  The driver launches an external binary over two parameter grids and prints what each
  run wrote to its standard output. Everything the script does beyond computing values is
  explicit here: the argument vectors handed to \<^verbatim>\<open>subprocess.run\<close>, the text written by
  \<^verbatim>\<open>print\<close>, the list objects the script allocates, and the exceptions that end it.
\<close>

subsection \<open>Data\<close>

text \<open>
  A \<^verbatim>\<open>bytes\<close> object is a list of 8-bit words. A Python \<^verbatim>\<open>str\<close> produced by decoding is a
  list of Unicode code points; the argument strings of the script are ASCII literals and
  are kept as HOL strings.
\<close>

type_synonym byte = "8 word"
type_synonym bytes = "byte list"
type_synonym str = "nat list"
type_synonym argv = "string list"
type_synonym ref = nat

text \<open>
  What the operating system answers to one launch: the executable could not be started,
  or the process ran and exited with a status, having written bytes to its standard
  output and standard error.
\<close>

datatype proc = LaunchError | Exited int bytes bytes

text \<open>
  The launcher is the environment of the script. It is asked with the number of launches
  made before and the argument vector, so that it can answer every launch differently.
\<close>

type_synonym launcher = "nat \<Rightarrow> argv \<Rightarrow> proc"

text \<open>The object \<^verbatim>\<open>subprocess.run\<close> returns.\<close>

datatype completed = CompletedProcess (cmd: argv) (returncode: int) (stdout: bytes) (stderr: bytes)

text \<open>
  The exceptions that can leave \<^verbatim>\<open>run\<close>. \<^verbatim>\<open>CalledProcessError\<close> carries the exit status,
  the command, the captured output and the captured standard error, as in the Python
  library; \<^verbatim>\<open>UnicodeDecodeError\<close> carries the bytes object that did not decode.
\<close>

datatype error =
    OSError
  | CalledProcessError int argv bytes bytes
  | UnicodeDecodeError bytes

datatype status = Ok | Raised error

text \<open>
  The state of the world: the argument vectors passed to the launcher so far, the text
  the driver has written to its own standard output, and the store of list objects with
  the next free address.
\<close>

record world =
  calls :: "argv list"
  console :: str
  heap :: "ref \<Rightarrow> argv"
  fresh :: ref

definition init_world :: world where
  "init_world = \<lparr>calls = [], console = [], heap = (\<lambda>_. []), fresh = 0\<rparr>"

subsection \<open>Library operations used by the script\<close>

text \<open>
  A list display \<^verbatim>\<open>[e1, ..., en]\<close> allocates a new list object and yields its reference.
\<close>

definition new_list :: "argv \<Rightarrow> world \<Rightarrow> ref \<times> world" where
  "new_list v w = (fresh w, w\<lparr>heap := (heap w)(fresh w := v), fresh := Suc (fresh w)\<rparr>)"

text \<open>
  \<^verbatim>\<open>subprocess.run(args, capture_output=True, check=True)\<close>: the list object is read, the
  process is launched and awaited. A launch failure raises; with \<^verbatim>\<open>check=True\<close> a non-zero
  exit status raises \<^verbatim>\<open>CalledProcessError\<close>. The library reads the list and does not write
  to it.
\<close>

definition subprocess_run :: "launcher \<Rightarrow> ref \<Rightarrow> world \<Rightarrow> (error + completed) \<times> world" where
  "subprocess_run L args w =
     (let v = heap w args;
          w1 = w\<lparr>calls := calls w @ [v]\<rparr>
      in case L (length (calls w)) v of
           LaunchError \<Rightarrow> (Inl OSError, w1)
         | Exited rc out err \<Rightarrow>
             if rc \<noteq> 0 then (Inl (CalledProcessError rc v out err), w1)
             else (Inr (CompletedProcess v rc out err), w1))"

text \<open>
  The slice \<^verbatim>\<open>b[:-1]\<close>: the stop index \<^verbatim>\<open>-1\<close> has the length added, and is clamped at 0.
\<close>

definition slice_to_minus1 :: "'a list \<Rightarrow> 'a list" where
  "slice_to_minus1 xs =
     (let n = int (length xs);
          stop = (if n - 1 < 0 then 0 else n - 1)
      in take (nat stop) xs)"

text \<open>
  \<^verbatim>\<open>str(b, encoding="utf-8")\<close>: the strict UTF-8 decoder. A lead byte fixes the number of
  continuation bytes; overlong forms, surrogates and code points above \<^verbatim>\<open>0x10FFFF\<close> are
  refused by the ranges allowed for the second byte.
\<close>

definition is_cont :: "byte \<Rightarrow> bool" where
  "is_cont b = (0x80 \<le> b \<and> b \<le> 0xBF)"

definition cont_bits :: "byte \<Rightarrow> nat" where
  "cont_bits b = unat b - 0x80"

text \<open>The range allowed for the byte that follows the lead byte \<open>b0\<close>.\<close>

definition second_lo :: "byte \<Rightarrow> byte" where
  "second_lo b0 = (if b0 = 0xE0 then 0xA0 else if b0 = 0xF0 then 0x90 else 0x80)"

definition second_hi :: "byte \<Rightarrow> byte" where
  "second_hi b0 = (if b0 = 0xED then 0x9F else if b0 = 0xF4 then 0x8F else 0xBF)"

definition is_second :: "byte \<Rightarrow> byte \<Rightarrow> bool" where
  "is_second b0 b1 = (second_lo b0 \<le> b1 \<and> b1 \<le> second_hi b0)"

fun utf8_decode :: "bytes \<Rightarrow> str option" where
  "utf8_decode [] = Some []"
| "utf8_decode (b0 # bs) =
     (if b0 < 0x80 then map_option (Cons (unat b0)) (utf8_decode bs)
      else if 0xC2 \<le> b0 \<and> b0 \<le> 0xDF then
        (case bs of
           b1 # r \<Rightarrow>
             if is_cont b1
             then map_option (Cons ((unat b0 - 0xC0) * 64 + cont_bits b1)) (utf8_decode r)
             else None
         | _ \<Rightarrow> None)
      else if 0xE0 \<le> b0 \<and> b0 \<le> 0xEF then
        (case bs of
           b1 # b2 # r \<Rightarrow>
             if is_second b0 b1 \<and> is_cont b2
             then map_option
                    (Cons ((unat b0 - 0xE0) * 4096 + cont_bits b1 * 64 + cont_bits b2))
                    (utf8_decode r)
             else None
         | _ \<Rightarrow> None)
      else if 0xF0 \<le> b0 \<and> b0 \<le> 0xF4 then
        (case bs of
           b1 # b2 # b3 # r \<Rightarrow>
             if is_second b0 b1 \<and> is_cont b2 \<and> is_cont b3
             then map_option
                    (Cons ((unat b0 - 0xF0) * 262144 + cont_bits b1 * 4096
                           + cont_bits b2 * 64 + cont_bits b3))
                    (utf8_decode r)
             else None
         | _ \<Rightarrow> None)
      else None)"

definition str_utf8 :: "bytes \<Rightarrow> error + str" where
  "str_utf8 b = (case utf8_decode b of None \<Rightarrow> Inl (UnicodeDecodeError b) | Some s \<Rightarrow> Inr s)"

text \<open>
  \<^verbatim>\<open>print(s)\<close> writes the text and one newline (code point 10). The driver's standard
  output is taken to accept every text.
\<close>

definition print :: "str \<Rightarrow> world \<Rightarrow> world" where
  "print s w = w\<lparr>console := console w @ s @ [10]\<rparr>"

subsection \<open>The script\<close>

text \<open>
  \<^verbatim>\<open>def run(args):\<close>
  \<^verbatim>\<open>    result = subprocess.run(args, capture_output=True, check=True)\<close>
  \<^verbatim>\<open>    print(str(result.stdout[:-1], encoding="utf-8"))\<close>
\<close>

definition run :: "launcher \<Rightarrow> ref \<Rightarrow> world \<Rightarrow> status \<times> world" where
  "run L args w =
     (case subprocess_run L args w of
        (Inl e, w1) \<Rightarrow> (Raised e, w1)
      | (Inr result, w1) \<Rightarrow>
          (case str_utf8 (slice_to_minus1 (stdout result)) of
             Inl e \<Rightarrow> (Raised e, w1)
           | Inr s \<Rightarrow> (Ok, print s w1)))"

text \<open>A \<^verbatim>\<open>for\<close> loop over a list: an exception in the body ends the loop.\<close>

fun for_each :: "('a \<Rightarrow> world \<Rightarrow> status \<times> world) \<Rightarrow> 'a list \<Rightarrow> world \<Rightarrow> status \<times> world" where
  "for_each body [] w = (Ok, w)"
| "for_each body (x # xs) w =
     (case body x w of
        (Raised e, w') \<Rightarrow> (Raised e, w')
      | (Ok, w') \<Rightarrow> for_each body xs w')"

definition comparison :: string where
  "comparison = ''./target/release/examples/comparison''"

definition dimensions :: "string list" where
  "dimensions = [''1'', ''8'', ''64'', ''256'']"

definition clients :: "string list" where
  "clients = [''10000'', ''100000'', ''1000000'']"

text \<open>The body of the loop over \<^verbatim>\<open>dimensions\<close> (lines 11 to 16).\<close>

definition dimension_body :: "launcher \<Rightarrow> string \<Rightarrow> world \<Rightarrow> status \<times> world" where
  "dimension_body L dimension w =
     (case new_list [comparison, ''-f'', ''prio'', ''-d'', dimension, ''-c'', ''10000''] w of
        (args, w1) \<Rightarrow>
          (case for_each (\<lambda>_. run L args) [0..<5] w1 of
             (Raised e, w2) \<Rightarrow> (Raised e, w2)
           | (Ok, w2) \<Rightarrow>
               (case new_list [comparison, ''-f'', ''dprio'', ''-d'', dimension, ''-c'', ''10000''] w2 of
                  (args, w3) \<Rightarrow> for_each (\<lambda>_. run L args) [0..<5] w3)))"

definition dimension_grid :: "launcher \<Rightarrow> world \<Rightarrow> status \<times> world" where
  "dimension_grid L w = for_each (dimension_body L) dimensions w"

text \<open>The body of the loop over \<^verbatim>\<open>clients\<close> (lines 20 to 25).\<close>

definition client_body :: "launcher \<Rightarrow> string \<Rightarrow> world \<Rightarrow> status \<times> world" where
  "client_body L n_clients w =
     (case new_list [comparison, ''-f'', ''prio'', ''-d'', ''1'', ''-c'', n_clients] w of
        (args, w1) \<Rightarrow>
          (case for_each (\<lambda>_. run L args) [0..<5] w1 of
             (Raised e, w2) \<Rightarrow> (Raised e, w2)
           | (Ok, w2) \<Rightarrow>
               (case new_list [comparison, ''-f'', ''dprio'', ''-d'', ''1'', ''-c'', n_clients] w2 of
                  (args, w3) \<Rightarrow> for_each (\<lambda>_. run L args) [0..<5] w3)))"

definition client_grid :: "launcher \<Rightarrow> world \<Rightarrow> status \<times> world" where
  "client_grid L w = for_each (client_body L) clients w"

text \<open>The module: the dimension loop, then the client loop.\<close>

definition script :: "launcher \<Rightarrow> world \<Rightarrow> status \<times> world" where
  "script L w =
     (case dimension_grid L w of
        (Raised e, w') \<Rightarrow> (Raised e, w')
      | (Ok, w') \<Rightarrow> client_grid L w')"

subsection \<open>The trace of a sweep\<close>

text \<open>
  The definitions of this section are not part of the script: they describe what the
  script does in terms of the argument vectors alone, and the lemmas below prove that the
  script behaves so.

  \<open>attempt L i v\<close> is what launch number \<open>i\<close> with argument vector \<open>v\<close> comes to: the
  exception it raises or the text it makes \<^verbatim>\<open>run\<close> print.
\<close>

definition attempt :: "launcher \<Rightarrow> nat \<Rightarrow> argv \<Rightarrow> error + str" where
  "attempt L i v =
     (case L i v of
        LaunchError \<Rightarrow> Inl OSError
      | Exited rc out err \<Rightarrow>
          if rc \<noteq> 0 then Inl (CalledProcessError rc v out err)
          else str_utf8 (slice_to_minus1 out))"

text \<open>\<^verbatim>\<open>run\<close> on a list whose contents are \<open>v\<close>.\<close>

definition invoke :: "launcher \<Rightarrow> argv \<Rightarrow> world \<Rightarrow> status \<times> world" where
  "invoke L v w =
     (case attempt L (length (calls w)) v of
        Inl e \<Rightarrow> (Raised e, w\<lparr>calls := calls w @ [v]\<rparr>)
      | Inr s \<Rightarrow> (Ok, w\<lparr>calls := calls w @ [v], console := console w @ s @ [10]\<rparr>))"

definition with_store :: "(ref \<Rightarrow> argv) \<Rightarrow> ref \<Rightarrow> world \<Rightarrow> world" where
  "with_store h n w = w\<lparr>heap := h, fresh := n\<rparr>"

text \<open>
  Running the argument vectors \<open>vs\<close> in order from launch number \<open>i\<close>: how it ends, which
  vectors are launched, and what is printed. All three stop at the first failure.
\<close>

fun outcome :: "launcher \<Rightarrow> nat \<Rightarrow> argv list \<Rightarrow> status" where
  "outcome L i [] = Ok"
| "outcome L i (v # vs) =
     (case attempt L i v of Inl e \<Rightarrow> Raised e | Inr s \<Rightarrow> outcome L (Suc i) vs)"

fun issued :: "launcher \<Rightarrow> nat \<Rightarrow> argv list \<Rightarrow> argv list" where
  "issued L i [] = []"
| "issued L i (v # vs) =
     v # (case attempt L i v of Inl e \<Rightarrow> [] | Inr s \<Rightarrow> issued L (Suc i) vs)"

fun printed :: "launcher \<Rightarrow> nat \<Rightarrow> argv list \<Rightarrow> str" where
  "printed L i [] = []"
| "printed L i (v # vs) =
     (case attempt L i v of Inl e \<Rightarrow> [] | Inr s \<Rightarrow> s @ [10] @ printed L (Suc i) vs)"

text \<open>The argument vectors of the two loops, in the order of the loops.\<close>

definition invocation :: "string \<Rightarrow> string \<Rightarrow> string \<Rightarrow> argv" where
  "invocation m d c = [comparison, ''-f'', m, ''-d'', d, ''-c'', c]"

definition dimension_plan :: "argv list" where
  "dimension_plan =
     concat (map (\<lambda>d. replicate 5 (invocation ''prio'' d ''10000'')
                      @ replicate 5 (invocation ''dprio'' d ''10000'')) dimensions)"

definition client_plan :: "argv list" where
  "client_plan =
     concat (map (\<lambda>c. replicate 5 (invocation ''prio'' ''1'' c)
                      @ replicate 5 (invocation ''dprio'' ''1'' c)) clients)"

definition sweep_plan :: "argv list" where
  "sweep_plan = dimension_plan @ client_plan"

text \<open>
  A launch succeeds when the process exits with status 0 and its output, without the
  last byte, decodes: then \<^verbatim>\<open>run\<close> returns normally.
\<close>

definition succeeds :: "proc \<Rightarrow> bool" where
  "succeeds p =
     (case p of
        LaunchError \<Rightarrow> False
      | Exited rc out err \<Rightarrow> rc = 0 \<and> utf8_decode (slice_to_minus1 out) \<noteq> None)"

subsection \<open>Sample environments\<close>

text \<open>
  A binary that always writes \<^verbatim>\<open>ok\<close> and a newline and exits 0; one that exits 1 at launch
  number \<open>k\<close>; one that writes a byte that is not UTF-8 at launch number \<open>k\<close>.
\<close>

definition steady :: launcher where
  "steady i v = Exited 0 [0x6F, 0x6B, 0x0A] [0x21]"

definition failing_at :: "nat \<Rightarrow> launcher" where
  "failing_at k i v = (if i = k then Exited 1 [0x6E, 0x6F, 0x0A] [0x21] else steady i v)"

definition garbled_at :: "nat \<Rightarrow> launcher" where
  "garbled_at k i v = (if i = k then Exited 0 [0xFF, 0x0A] [] else steady i v)"

text \<open>A binary that always exits 0 and always writes the byte \<^verbatim>\<open>FF\<close> and a newline.\<close>

definition garbled :: launcher where
  "garbled i v = Exited 0 [0xFF, 0x0A] []"

text \<open>
  One that writes \<^verbatim>\<open>hello\<close> and a newline, one that writes nothing at all, and one that
  writes what \<open>steady\<close> writes to standard output and something else to standard error.
\<close>

definition greeter :: launcher where
  "greeter i v = Exited 0 [0x68, 0x65, 0x6C, 0x6C, 0x6F, 0x0A] []"

definition silent :: launcher where
  "silent i v = Exited 0 [] []"

definition noisy :: launcher where
  "noisy i v = Exited 0 [0x6F, 0x6B, 0x0A] [0x45, 0x52, 0x52]"

text \<open>The world after the script has built its first argument list, at address 0.\<close>

definition sample_world :: world where
  "sample_world = snd (new_list (invocation ''prio'' ''1'' ''10000'') init_world)"

text \<open>What is left of a launch when the bytes on standard error are forgotten.\<close>

definition visible :: "proc \<Rightarrow> proc" where
  "visible p = (case p of LaunchError \<Rightarrow> LaunchError | Exited rc out err \<Rightarrow> Exited rc out [])"

subsection \<open>The UTF-8 encoding\<close>

text \<open>
  The encoding that \<^verbatim>\<open>str(b, encoding="utf-8")\<close> inverts, written from the definition of
  UTF-8: a code point below \<^verbatim>\<open>0x80\<close> is one byte, below \<^verbatim>\<open>0x800\<close> two, below \<^verbatim>\<open>0x10000\<close>
  three, and otherwise four, with six bits in each continuation byte. The code points
  that have an encoding are the Unicode scalar values: those up to \<^verbatim>\<open>0x10FFFF\<close> that are
  not surrogates.
\<close>

definition byte_of :: "nat \<Rightarrow> byte" where
  "byte_of n = of_nat n"

definition is_scalar :: "nat \<Rightarrow> bool" where
  "is_scalar c = (c < 0xD800 \<or> (0xE000 \<le> c \<and> c < 0x110000))"

definition encode_cp :: "nat \<Rightarrow> bytes" where
  "encode_cp c =
     (if c < 0x80 then [byte_of c]
      else if c < 0x800 then [byte_of (0xC0 + c div 64), byte_of (0x80 + c mod 64)]
      else if c < 0x10000 then
        [byte_of (0xE0 + c div 4096), byte_of (0x80 + (c div 64) mod 64), byte_of (0x80 + c mod 64)]
      else
        [byte_of (0xF0 + c div 262144), byte_of (0x80 + (c div 4096) mod 64),
         byte_of (0x80 + (c div 64) mod 64), byte_of (0x80 + c mod 64)])"

definition utf8_encode :: "str \<Rightarrow> bytes" where
  "utf8_encode s = concat (map encode_cp s)"

text \<open>
  A binary that writes the UTF-8 encoding of the three code points \<^verbatim>\<open>U+00E9\<close>, \<^verbatim>\<open>U+20AC\<close>
  and \<^verbatim>\<open>U+1F600\<close>, of two, three and four bytes, and a newline.
\<close>

definition polyglot :: launcher where
  "polyglot i v = Exited 0 [0xC3, 0xA9, 0xE2, 0x82, 0xAC, 0xF0, 0x9F, 0x98, 0x80, 0x0A] []"

section \<open>The script as a trace\<close>

lemma slice_to_minus1_butlast: "slice_to_minus1 xs = butlast xs"
  by (cases xs rule: rev_cases) (simp_all add: slice_to_minus1_def Let_def butlast_conv_take)

lemma run_invoke: "run L a w = invoke L (heap w a) w"
  by (simp add: run_def invoke_def attempt_def subprocess_run_def print_def Let_def
           split: proc.splits sum.splits)

lemma invoke_heap [simp]: "heap (snd (invoke L v w)) = heap w"
  by (simp add: invoke_def split: sum.splits)

lemma invoke_fresh [simp]: "fresh (snd (invoke L v w)) = fresh w"
  by (simp add: invoke_def split: sum.splits)

lemma invoke_with_store:
  "invoke L v (with_store h n w) = apsnd (with_store h n) (invoke L v w)"
  by (simp add: invoke_def with_store_def split: sum.splits)

lemma plan_with_store:
  "for_each (invoke L) vs (with_store h n w) = apsnd (with_store h n) (for_each (invoke L) vs w)"
proof (induction vs arbitrary: w)
  case Nil
  show ?case by simp
next
  case (Cons v vs)
  obtain st w' where r: "invoke L v w = (st, w')" by (cases "invoke L v w")
  show ?case
    by (cases st) (simp_all add: invoke_with_store r Cons.IH)
qed

lemma repeat_run:
  "for_each (\<lambda>_. run L a) xs w = for_each (invoke L) (replicate (length xs) (heap w a)) w"
proof (induction xs arbitrary: w)
  case Nil
  show ?case by simp
next
  case (Cons x xs)
  obtain st w' where r: "invoke L (heap w a) w = (st, w')" by (cases "invoke L (heap w a) w")
  have h: "heap w' = heap w" using invoke_heap [of L "heap w a" w] by (simp add: r)
  show ?case
    using Cons.IH [of w'] by (cases st) (simp_all add: run_invoke [of L a w] r h)
qed

lemma for_each_append:
  "for_each f (xs @ ys) w =
     (case for_each f xs w of (Raised e, w') \<Rightarrow> (Raised e, w') | (Ok, w') \<Rightarrow> for_each f ys w')"
proof (induction xs arbitrary: w)
  case Nil
  show ?case by simp
next
  case (Cons x xs)
  obtain st w' where r: "f x w = (st, w')" by (cases "f x w")
  show ?case
    by (cases st) (simp_all add: r Cons.IH)
qed

lemma new_list_store:
  "new_list v w = (fresh w, with_store ((heap w)(fresh w := v)) (Suc (fresh w)) w)"
  by (simp add: new_list_def with_store_def)

lemma with_store_twice [simp]: "with_store h n (with_store h' n' w) = with_store h n w"
  by (simp add: with_store_def)

lemma with_store_proj [simp]:
  "calls (with_store h n w) = calls w" "console (with_store h n w) = console w"
  "heap (with_store h n w) = h" "fresh (with_store h n w) = n"
  by (simp_all add: with_store_def)

lemma two_phase_plan:
  "\<exists>h n.
     (case new_list v1 w of
        (args, w1) \<Rightarrow>
          (case for_each (\<lambda>_. run L args) [0..<5] w1 of
             (Raised e, w2) \<Rightarrow> (Raised e, w2)
           | (Ok, w2) \<Rightarrow>
               (case new_list v2 w2 of
                  (args, w3) \<Rightarrow> for_each (\<lambda>_. run L args) [0..<5] w3)))
     = apsnd (with_store h n) (for_each (invoke L) (replicate 5 v1 @ replicate 5 v2) w)"
proof -
  obtain st w' where r: "for_each (invoke L) (replicate 5 v1) w = (st, w')"
    by (cases "for_each (invoke L) (replicate 5 v1) w")
  show ?thesis
  proof (cases st)
    case Ok
    obtain st2 w'' where r2: "for_each (invoke L) (replicate 5 v2) w' = (st2, w'')"
      by (cases "for_each (invoke L) (replicate 5 v2) w'")
    show ?thesis
      by (simp add: new_list_store repeat_run plan_with_store for_each_append r r2 Ok) blast
  next
    case (Raised e)
    show ?thesis
      by (simp add: new_list_store repeat_run plan_with_store for_each_append r Raised) blast
  qed
qed

lemma invoke_Inl:
  "attempt L (length (calls w)) v = Inl e \<Longrightarrow> invoke L v w = (Raised e, w\<lparr>calls := calls w @ [v]\<rparr>)"
  by (simp add: invoke_def)

lemma invoke_Inr:
  "attempt L (length (calls w)) v = Inr s \<Longrightarrow>
   invoke L v w = (Ok, w\<lparr>calls := calls w @ [v], console := console w @ s @ [10]\<rparr>)"
  by (simp add: invoke_def)

lemma plan_trace:
  "for_each (invoke L) vs w =
     (outcome L (length (calls w)) vs,
      w\<lparr>calls := calls w @ issued L (length (calls w)) vs,
        console := console w @ printed L (length (calls w)) vs\<rparr>)"
proof (induction vs arbitrary: w)
  case Nil
  show ?case by simp
next
  case (Cons v vs)
  show ?case
    by (cases "attempt L (length (calls w)) v") (simp_all add: invoke_Inl invoke_Inr Cons.IH)
qed

lemma with_store_id: "with_store (heap w) (fresh w) w = w"
  by (simp add: with_store_def)

lemma grid_plan:
  assumes body: "\<And>x w. \<exists>h n. body x w = apsnd (with_store h n) (for_each (invoke L) (p x) w)"
  shows "\<exists>h n. for_each body xs w
                 = apsnd (with_store h n) (for_each (invoke L) (concat (map p xs)) w)"
proof (induction xs arbitrary: w)
  case Nil
  have "for_each body [] w
          = apsnd (with_store (heap w) (fresh w)) (for_each (invoke L) (concat (map p [])) w)"
    by (simp add: with_store_id)
  then show ?case by blast
next
  case (Cons x xs)
  obtain st w1 where r: "for_each (invoke L) (p x) w = (st, w1)"
    by (cases "for_each (invoke L) (p x) w")
  from body [of x w] obtain h n where b: "body x w = (st, with_store h n w1)"
    by (auto simp add: r)
  show ?case
  proof (cases st)
    case Ok
    from Cons.IH [of "with_store h n w1"] obtain h' n' where
      "for_each body xs (with_store h n w1)
         = apsnd (with_store h' n') (for_each (invoke L) (concat (map p xs)) (with_store h n w1))"
      by blast
    then have "for_each body (x # xs) w
         = apsnd (with_store h' n') (for_each (invoke L) (concat (map p (x # xs))) w)"
      by (cases "for_each (invoke L) (concat (map p xs)) w1")
         (simp add: b Ok for_each_append r plan_with_store)
    then show ?thesis by blast
  next
    case (Raised e)
    have "for_each body (x # xs) w
         = apsnd (with_store h n) (for_each (invoke L) (concat (map p (x # xs))) w)"
      by (simp add: b Raised for_each_append r)
    then show ?thesis by blast
  qed
qed

lemma dimension_grid_plan:
  "\<exists>h n. dimension_grid L w = apsnd (with_store h n) (for_each (invoke L) dimension_plan w)"
  unfolding dimension_grid_def dimension_plan_def
  by (rule grid_plan) (simp add: dimension_body_def invocation_def two_phase_plan)

lemma client_grid_plan:
  "\<exists>h n. client_grid L w = apsnd (with_store h n) (for_each (invoke L) client_plan w)"
  unfolding client_grid_def client_plan_def
  by (rule grid_plan) (simp add: client_body_def invocation_def two_phase_plan)

lemma script_plan:
  "\<exists>h n. script L w = apsnd (with_store h n) (for_each (invoke L) sweep_plan w)"
proof -
  obtain st w1 where r: "for_each (invoke L) dimension_plan w = (st, w1)"
    by (cases "for_each (invoke L) dimension_plan w")
  from dimension_grid_plan [of L w] obtain h n where
    d: "dimension_grid L w = (st, with_store h n w1)"
    by (auto simp add: r)
  show ?thesis
  proof (cases st)
    case Ok
    from client_grid_plan [of L "with_store h n w1"] obtain h' n' where
      "client_grid L (with_store h n w1)
         = apsnd (with_store h' n') (for_each (invoke L) client_plan (with_store h n w1))"
      by blast
    then have "script L w = apsnd (with_store h' n') (for_each (invoke L) sweep_plan w)"
      by (cases "for_each (invoke L) client_plan w1")
         (simp add: script_def sweep_plan_def d Ok for_each_append r plan_with_store)
    then show ?thesis by blast
  next
    case (Raised e)
    have "script L w = apsnd (with_store h n) (for_each (invoke L) sweep_plan w)"
      by (simp add: script_def sweep_plan_def d Raised for_each_append r)
    then show ?thesis by blast
  qed
qed

lemma attempt_succeeds: "succeeds (L i v) \<Longrightarrow> \<exists>s. attempt L i v = Inr s"
  by (auto simp add: succeeds_def attempt_def str_utf8_def split: proc.splits)

lemma attempt_nonzero:
  "L i v = Exited rc out err \<Longrightarrow> rc \<noteq> 0 \<Longrightarrow> attempt L i v = Inl (CalledProcessError rc v out err)"
  by (simp add: attempt_def)

lemma attempt_undecodable:
  "L i v = Exited 0 out err \<Longrightarrow> utf8_decode (butlast out) = None \<Longrightarrow>
   attempt L i v = Inl (UnicodeDecodeError (butlast out))"
  by (simp add: attempt_def str_utf8_def slice_to_minus1_butlast)

lemma attempt_decodable:
  "L i v = Exited 0 out err \<Longrightarrow> utf8_decode (butlast out) = Some s \<Longrightarrow> attempt L i v = Inr s"
  by (simp add: attempt_def str_utf8_def slice_to_minus1_butlast)

lemma issued_of_Ok: "outcome L i vs = Ok \<Longrightarrow> issued L i vs = vs"
  by (induction vs arbitrary: i) (auto split: sum.splits)

lemma issued_take: "\<exists>k\<le>length vs. issued L i vs = take k vs"
proof (induction vs arbitrary: i)
  case Nil
  show ?case by simp
next
  case (Cons v vs)
  show ?case
  proof (cases "attempt L i v")
    case (Inl e)
    have "issued L i (v # vs) = take 1 (v # vs)" by (simp add: Inl)
    then show ?thesis by (metis One_nat_def Suc_leI length_Cons zero_less_Suc)
  next
    case (Inr s)
    from Cons.IH [of "Suc i"] obtain k where "k \<le> length vs" "issued L (Suc i) vs = take k vs"
      by blast
    then have "Suc k \<le> length (v # vs) \<and> issued L i (v # vs) = take (Suc k) (v # vs)"
      by (simp add: Inr)
    then show ?thesis by blast
  qed
qed

lemma first_failure:
  "k < length vs \<Longrightarrow> (\<forall>j<k. \<exists>s. attempt L (i + j) (vs ! j) = Inr s) \<Longrightarrow>
   attempt L (i + k) (vs ! k) = Inl e \<Longrightarrow>
   outcome L i vs = Raised e \<and> issued L i vs = take (Suc k) vs
     \<and> printed L i vs = printed L i (take k vs)"
proof (induction vs arbitrary: i k)
  case Nil
  then show ?case by simp
next
  case (Cons v vs)
  show ?case
  proof (cases k)
    case 0
    with Cons.prems show ?thesis by simp
  next
    case (Suc k')
    from Cons.prems(2) Suc obtain s where s: "attempt L i v = Inr s"
      by fastforce
    have earlier: "\<forall>j<k'. \<exists>s. attempt L (Suc i + j) (vs ! j) = Inr s"
    proof (intro allI impI)
      fix j assume "j < k'"
      then have "Suc j < k" by (simp add: Suc)
      with Cons.prems(2) have "\<exists>s. attempt L (i + Suc j) ((v # vs) ! Suc j) = Inr s" by blast
      then show "\<exists>s. attempt L (Suc i + j) (vs ! j) = Inr s" by simp
    qed
    have here: "attempt L (Suc i + k') (vs ! k') = Inl e"
      using Cons.prems(3) by (simp add: Suc)
    have "k' < length vs" using Cons.prems(1) by (simp add: Suc)
    from Cons.IH [OF this earlier here] show ?thesis
      by (simp add: s Suc)
  qed
qed

lemma all_succeed:
  "(\<forall>j<length vs. \<exists>s. attempt L (i + j) (vs ! j) = Inr s) \<Longrightarrow> outcome L i vs = Ok"
proof (induction vs arbitrary: i)
  case Nil
  show ?case by simp
next
  case (Cons v vs)
  from Cons.prems obtain s where s: "attempt L i v = Inr s" by fastforce
  have "\<forall>j<length vs. \<exists>s. attempt L (Suc i + j) (vs ! j) = Inr s"
  proof (intro allI impI)
    fix j assume "j < length vs"
    then have "Suc j < length (v # vs)" by simp
    with Cons.prems have "\<exists>s. attempt L (i + Suc j) ((v # vs) ! Suc j) = Inr s" by blast
    then show "\<exists>s. attempt L (Suc i + j) (vs ! j) = Inr s" by simp
  qed
  from Cons.IH [OF this] show ?case by (simp add: s)
qed

lemma script_status: "fst (script L w) = outcome L (length (calls w)) sweep_plan"
  using script_plan [of L w] by (auto simp add: plan_trace)

lemma script_calls:
  "calls (snd (script L w)) = calls w @ issued L (length (calls w)) sweep_plan"
  using script_plan [of L w] by (auto simp add: plan_trace)

lemma script_console:
  "console (snd (script L w)) = console w @ printed L (length (calls w)) sweep_plan"
  using script_plan [of L w] by (auto simp add: plan_trace)

lemma dimension_grid_status: "fst (dimension_grid L w) = outcome L (length (calls w)) dimension_plan"
  using dimension_grid_plan [of L w] by (auto simp add: plan_trace)

lemma dimension_grid_calls:
  "calls (snd (dimension_grid L w)) = calls w @ issued L (length (calls w)) dimension_plan"
  using dimension_grid_plan [of L w] by (auto simp add: plan_trace)

lemma client_grid_status: "fst (client_grid L w) = outcome L (length (calls w)) client_plan"
  using client_grid_plan [of L w] by (auto simp add: plan_trace)

lemma client_grid_calls:
  "calls (snd (client_grid L w)) = calls w @ issued L (length (calls w)) client_plan"
  using client_grid_plan [of L w] by (auto simp add: plan_trace)

lemma dimension_plan_eq:
  "dimension_plan =
     concat (map (\<lambda>(d, m). replicate 5
                    [''./target/release/examples/comparison'', ''-f'', m, ''-d'', d, ''-c'', ''10000''])
                 (List.product [''1'', ''8'', ''64'', ''256''] [''prio'', ''dprio'']))"
  by (simp add: dimension_plan_def dimensions_def invocation_def comparison_def)

lemma client_plan_eq:
  "client_plan =
     concat (map (\<lambda>(c, m). replicate 5
                    [''./target/release/examples/comparison'', ''-f'', m, ''-d'', ''1'', ''-c'', c])
                 (List.product [''10000'', ''100000'', ''1000000''] [''prio'', ''dprio'']))"
  by (simp add: client_plan_def clients_def invocation_def comparison_def)

lemma length_dimension_plan: "length dimension_plan = 40"
  by (simp add: dimension_plan_def dimensions_def)

lemma length_client_plan: "length client_plan = 30"
  by (simp add: client_plan_def clients_def)

lemma steady_succeeds: "succeeds (steady i v)"
  by (simp add: succeeds_def steady_def slice_to_minus1_def)

lemma attempt_steady: "attempt steady i v = Inr [111, 107]"
  by (simp add: attempt_def steady_def slice_to_minus1_def str_utf8_def)

lemma outcome_steady: "outcome steady i vs = Ok"
  by (rule all_succeed) (simp add: attempt_steady)

lemma script_calls_prefix:
  "\<exists>k\<le>length sweep_plan. calls (snd (script L w)) = calls w @ take k sweep_plan"
  using issued_take [of sweep_plan L "length (calls w)"] by (auto simp add: script_calls)

lemma run_exit0:
  "L (length (calls w)) (heap w a) = Exited 0 out err \<Longrightarrow>
   run L a w =
     (case utf8_decode (butlast out) of
        Some s \<Rightarrow> (Ok, w\<lparr>calls := calls w @ [heap w a], console := console w @ s @ [10]\<rparr>)
      | None \<Rightarrow> (Raised (UnicodeDecodeError (butlast out)), w\<lparr>calls := calls w @ [heap w a]\<rparr>))"
  by (simp add: run_invoke invoke_def attempt_def str_utf8_def slice_to_minus1_butlast
           split: option.splits)

lemma run_nonzero:
  "L (length (calls w)) (heap w a) = Exited rc out err \<Longrightarrow> rc \<noteq> 0 \<Longrightarrow>
   run L a w = (Raised (CalledProcessError rc (heap w a) out err), w\<lparr>calls := calls w @ [heap w a]\<rparr>)"
  by (simp add: run_invoke invoke_def attempt_def)

lemma utf8_hello: "utf8_decode [0x68, 0x65, 0x6C, 0x6C, 0x6F] = Some [104, 101, 108, 108, 111]"
  by simp

lemma sample_world_simps:
  "calls sample_world = []" "console sample_world = []"
  "heap sample_world 0 = invocation ''prio'' ''1'' ''10000''"
  by (simp_all add: sample_world_def new_list_def init_world_def)

lemma sweep_plan_12: "sweep_plan ! 12 = invocation ''prio'' ''8'' ''10000''"
  by (simp add: sweep_plan_def dimension_plan_def dimensions_def nth_append eval_nat_numeral)

lemma length_sweep_plan: "length sweep_plan = 70"
  by (simp add: sweep_plan_def length_dimension_plan length_client_plan)

lemma sweep_plan_45: "sweep_plan ! 45 = invocation ''dprio'' ''1'' ''10000''"
  by (simp add: sweep_plan_def length_dimension_plan nth_append client_plan_def clients_def eval_nat_numeral)

lemma printed_uniform:
  "(\<forall>j<length vs. attempt L (i + j) (vs ! j) = Inr s) \<Longrightarrow>
   printed L i vs = concat (replicate (length vs) (s @ [10]))"
proof (induction vs arbitrary: i)
  case Nil
  show ?case by simp
next
  case (Cons v vs)
  from Cons.prems have s: "attempt L i v = Inr s" by fastforce
  have "\<forall>j<length vs. attempt L (Suc i + j) (vs ! j) = Inr s"
  proof (intro allI impI)
    fix j assume "j < length vs"
    then have "Suc j < length (v # vs)" by simp
    with Cons.prems have "attempt L (i + Suc j) ((v # vs) ! Suc j) = Inr s" by blast
    then show "attempt L (Suc i + j) (vs ! j) = Inr s" by simp
  qed
  from Cons.IH [OF this] show ?case by (simp add: s)
qed

lemma sweep_first_failure:
  assumes "k < length sweep_plan"
      and "\<forall>j<k. succeeds (L (length (calls w) + j) (sweep_plan ! j))"
      and "attempt L (length (calls w) + k) (sweep_plan ! k) = Inl e"
  shows "fst (script L w) = Raised e
         \<and> calls (snd (script L w)) = calls w @ take (Suc k) sweep_plan
         \<and> console (snd (script L w)) = console w @ printed L (length (calls w)) (take k sweep_plan)"
proof -
  from assms(2) have "\<forall>j<k. \<exists>s. attempt L (length (calls w) + j) (sweep_plan ! j) = Inr s"
    by (simp add: attempt_succeeds)
  from first_failure [OF assms(1) this assms(3)] show ?thesis
    by (simp add: script_status script_calls script_console)
qed

lemma attempt_failing_before: "i < k \<Longrightarrow> attempt (failing_at k) i v = Inr [111, 107]"
  by (simp add: attempt_def failing_at_def steady_def slice_to_minus1_def str_utf8_def)

lemma attempt_garbled_before: "i < k \<Longrightarrow> attempt (garbled_at k) i v = Inr [111, 107]"
  by (simp add: attempt_def garbled_at_def steady_def slice_to_minus1_def str_utf8_def)

lemma utf8_ff: "utf8_decode [0xFF] = None"
  by simp

lemma greeter_succeeds: "succeeds (greeter i v)"
  by (simp add: succeeds_def greeter_def slice_to_minus1_def)

lemma attempt_greeter: "attempt greeter i v = Inr [104, 101, 108, 108, 111]"
  by (simp add: attempt_def greeter_def slice_to_minus1_def str_utf8_def)

lemma outcome_greeter: "outcome greeter i vs = Ok"
  by (rule all_succeed) (simp add: attempt_greeter)

lemma attempt_Inr_iff: "(\<exists>s. attempt L i v = Inr s) \<longleftrightarrow> succeeds (L i v)"
  by (auto simp add: attempt_def succeeds_def str_utf8_def split: proc.splits option.splits if_splits)

lemma outcome_Ok_iff:
  "outcome L i vs = Ok \<longleftrightarrow> (\<forall>j<length vs. succeeds (L (i + j) (vs ! j)))"
proof (induction vs arbitrary: i)
  case Nil
  show ?case by simp
next
  case (Cons v vs)
  have "outcome L i (v # vs) = Ok \<longleftrightarrow> succeeds (L i v) \<and> outcome L (Suc i) vs = Ok"
    using attempt_Inr_iff [of L i v] by (auto split: sum.splits)
  then show ?case
    by (simp add: Cons.IH All_less_Suc2)
qed

lemma attempt_visible:
  assumes "visible (L1 i v) = visible (L2 i v)"
  shows "(attempt L1 i v = Inr s) = (attempt L2 i v = Inr s)"
    and "(\<exists>e. attempt L1 i v = Inl e) = (\<exists>e. attempt L2 i v = Inl e)"
  using assms
  by (auto simp add: attempt_def visible_def str_utf8_def split: proc.splits option.splits if_splits)

lemma trace_visible:
  assumes "\<forall>i v. visible (L1 i v) = visible (L2 i v)"
  shows "printed L1 i vs = printed L2 i vs \<and> issued L1 i vs = issued L2 i vs"
proof (induction vs arbitrary: i)
  case Nil
  show ?case by simp
next
  case (Cons v vs)
  from assms have vis: "visible (L1 i v) = visible (L2 i v)" by blast
  show ?case
  proof (cases "attempt L1 i v")
    case (Inl e)
    with attempt_visible(2) [where ?L1.0 = L1 and ?L2.0 = L2 and i = i and v = v] vis obtain e' where "attempt L2 i v = Inl e'" by blast
    with Inl show ?thesis by simp
  next
    case (Inr s)
    with attempt_visible(1) [where ?L1.0 = L1 and ?L2.0 = L2 and i = i and v = v and s = s] vis have "attempt L2 i v = Inr s" by blast
    with Inr Cons.IH [of "Suc i"] show ?thesis by simp
  qed
qed

lemma run_same_console:
  assumes "L1 (length (calls w)) (heap w a) = Exited rc out e1"
      and "L2 (length (calls w)) (heap w a) = Exited rc out e2"
  shows "console (snd (run L1 a w)) = console (snd (run L2 a w)) \<and>
         console (snd (run L1 a w)) =
           console w @ (if rc = 0
                        then (case utf8_decode (butlast out) of Some s \<Rightarrow> s @ [10] | None \<Rightarrow> [])
                        else []) \<and>
         (fst (run L1 a w) = Ok \<longleftrightarrow> fst (run L2 a w) = Ok) \<and>
         calls (snd (run L1 a w)) = calls (snd (run L2 a w))"
proof (cases "rc = 0")
  case True
  with assms have "L1 (length (calls w)) (heap w a) = Exited 0 out e1"
    and "L2 (length (calls w)) (heap w a) = Exited 0 out e2" by simp_all
  then show ?thesis
    using run_exit0 [where L = L1 and w = w and a = a and out = out and err = e1]
          run_exit0 [where L = L2 and w = w and a = a and out = out and err = e2]
    by (simp add: True split: option.splits)
next
  case False
  with assms show ?thesis
    using run_nonzero [where L = L1 and w = w and a = a and rc = rc and out = out and err = e1]
          run_nonzero [where L = L2 and w = w and a = a and rc = rc and out = out and err = e2]
    by simp
qed

section \<open>The decoder inverts the UTF-8 encoding\<close>

lemma unat_byte_of: "n < 256 \<Longrightarrow> unat (byte_of n) = n"
  by (simp add: byte_of_def unat_of_nat)

lemma byte_le: "(a::byte) \<le> b \<longleftrightarrow> unat a \<le> unat b"
  by (rule word_le_nat_alt)

lemma byte_less: "(a::byte) < b \<longleftrightarrow> unat a < unat b"
  by (rule word_less_nat_alt)

lemma byte_eq: "(a::byte) = b \<longleftrightarrow> unat a = unat b"
  by (simp add: word_unat_eq_iff)

lemma dec1:
  assumes "c < 0x80"
  shows "utf8_decode (byte_of c # bs) = map_option (Cons c) (utf8_decode bs)"
  using assms by (simp add: byte_less unat_byte_of)

lemma dec2:
  assumes "0x80 \<le> c" "c < 0x800"
  shows "utf8_decode (byte_of (0xC0 + c div 64) # byte_of (0x80 + c mod 64) # bs)
           = map_option (Cons c) (utf8_decode bs)"
proof -
  define h where "h = c div 64"
  define l where "l = c mod 64"
  have c: "c = h * 64 + l" by (simp add: h_def l_def)
  have h: "2 \<le> h" "h \<le> 31" using assms by (simp_all add: h_def)
  have l: "l < 64" by (simp add: l_def)
  have u0: "unat (byte_of (0xC0 + h)) = 0xC0 + h" using h by (simp add: unat_byte_of)
  have u1: "unat (byte_of (0x80 + l)) = 0x80 + l" using l by (simp add: unat_byte_of)
  show ?thesis
    unfolding h_def [symmetric] l_def [symmetric]
    using h l by (simp add: byte_le byte_less u0 u1 is_cont_def cont_bits_def c)
qed

lemma digits2: "(c::nat) = (c div 64) * 64 + c mod 64"
  by simp

lemma digits3: "(c::nat) = (c div 4096) * 4096 + ((c div 64) mod 64) * 64 + c mod 64"
proof -
  define q where "q = c div 64"
  have q: "q = (q div 64) * 64 + q mod 64" by simp
  have "q div 64 = c div 4096" by (simp add: q_def div_mult2_eq [symmetric])
  with q have "q = (c div 4096) * 64 + q mod 64" by simp
  then have "q * 64 + c mod 64 = ((c div 4096) * 64 + q mod 64) * 64 + c mod 64" by simp
  also have "q * 64 + c mod 64 = c" by (simp add: q_def)
  finally show ?thesis by (simp add: q_def algebra_simps)
qed

lemma digits4:
  "(c::nat) = (c div 262144) * 262144 + ((c div 4096) mod 64) * 4096
                + ((c div 64) mod 64) * 64 + c mod 64"
proof -
  define q where "q = c div 4096"
  have q: "q = (q div 64) * 64 + q mod 64" by simp
  have "q div 64 = c div 262144" by (simp add: q_def div_mult2_eq [symmetric])
  with q have "q = (c div 262144) * 64 + q mod 64" by simp
  then have "q * 4096 = ((c div 262144) * 64 + q mod 64) * 4096" by simp
  with digits3 [of c] show ?thesis by (simp add: q_def algebra_simps)
qed

lemma dec3:
  assumes "0x800 \<le> c" "c < 0x10000" "is_scalar c"
  shows "utf8_decode (byte_of (0xE0 + c div 4096) # byte_of (0x80 + (c div 64) mod 64)
                        # byte_of (0x80 + c mod 64) # bs)
           = map_option (Cons c) (utf8_decode bs)"
proof -
  define h where "h = c div 4096"
  define m where "m = (c div 64) mod 64"
  define l where "l = c mod 64"
  have c: "c = h * 4096 + m * 64 + l" unfolding h_def m_def l_def by (rule digits3)
  have m: "m < 64" by (simp add: m_def)
  have l: "l < 64" by (simp add: l_def)
  have h: "h \<le> 15" using assms(2) c by arith
  have lo: "h = 0 \<Longrightarrow> 32 \<le> m" using assms(1) c l by arith
  have hi: "h = 13 \<Longrightarrow> m \<le> 31" using assms(2,3) c l m unfolding is_scalar_def by arith
  define b0 where "b0 = byte_of (0xE0 + h)"
  define b1 where "b1 = byte_of (0x80 + m)"
  define b2 where "b2 = byte_of (0x80 + l)"
  have u0: "unat b0 = 0xE0 + h" using h by (simp add: b0_def unat_byte_of)
  have u1: "unat b1 = 0x80 + m" using m by (simp add: b1_def unat_byte_of)
  have u2: "unat b2 = 0x80 + l" using l by (simp add: b2_def unat_byte_of)
  have n1: "\<not> b0 < 0x80" by (simp add: byte_less u0)
  have n2: "\<not> (0xC2 \<le> b0 \<and> b0 \<le> 0xDF)" by (simp add: byte_le u0)
  have r3: "0xE0 \<le> b0 \<and> b0 \<le> 0xEF" using h by (simp add: byte_le u0)
  have e0: "b0 = 0xE0 \<longleftrightarrow> h = 0" by (simp add: byte_eq u0)
  have ed: "b0 = 0xED \<longleftrightarrow> h = 13" by (simp add: byte_eq u0)
  have f0: "b0 \<noteq> 0xF0" "b0 \<noteq> 0xF4" using h by (simp_all add: byte_eq u0)
  have sec: "is_second b0 b1"
    using m lo hi by (simp add: is_second_def second_lo_def second_hi_def e0 ed f0 byte_le u1)
  have cont: "is_cont b2" using l by (simp add: is_cont_def byte_le u2)
  have val: "(unat b0 - 0xE0) * 4096 + cont_bits b1 * 64 + cont_bits b2 = c"
    by (simp add: u0 u1 u2 cont_bits_def c)
  have "utf8_decode (b0 # b1 # b2 # bs) = map_option (Cons c) (utf8_decode bs)"
    by (simp add: n1 n2 r3 sec cont val)
  then show ?thesis
    by (simp only: b0_def b1_def b2_def h_def m_def l_def)
qed

lemma dec4:
  assumes "0x10000 \<le> c" "c < 0x110000"
  shows "utf8_decode (byte_of (0xF0 + c div 262144) # byte_of (0x80 + (c div 4096) mod 64)
                        # byte_of (0x80 + (c div 64) mod 64) # byte_of (0x80 + c mod 64) # bs)
           = map_option (Cons c) (utf8_decode bs)"
proof -
  define h where "h = c div 262144"
  define k where "k = (c div 4096) mod 64"
  define m where "m = (c div 64) mod 64"
  define l where "l = c mod 64"
  have c: "c = h * 262144 + k * 4096 + m * 64 + l"
    unfolding h_def k_def m_def l_def by (rule digits4)
  have k: "k < 64" by (simp add: k_def)
  have m: "m < 64" by (simp add: m_def)
  have l: "l < 64" by (simp add: l_def)
  have h: "h \<le> 4" using assms(2) c by arith
  have lo: "h = 0 \<Longrightarrow> 16 \<le> k" using assms(1) c l m by arith
  have hi: "h = 4 \<Longrightarrow> k \<le> 15" using assms(2) c by arith
  define b0 where "b0 = byte_of (0xF0 + h)"
  define b1 where "b1 = byte_of (0x80 + k)"
  define b2 where "b2 = byte_of (0x80 + m)"
  define b3 where "b3 = byte_of (0x80 + l)"
  have u0: "unat b0 = 0xF0 + h" using h by (simp add: b0_def unat_byte_of)
  have u1: "unat b1 = 0x80 + k" using k by (simp add: b1_def unat_byte_of)
  have u2: "unat b2 = 0x80 + m" using m by (simp add: b2_def unat_byte_of)
  have u3: "unat b3 = 0x80 + l" using l by (simp add: b3_def unat_byte_of)
  have n1: "\<not> b0 < 0x80" by (simp add: byte_less u0)
  have n2: "\<not> (0xC2 \<le> b0 \<and> b0 \<le> 0xDF)" by (simp add: byte_le u0)
  have n3: "\<not> (0xE0 \<le> b0 \<and> b0 \<le> 0xEF)" by (simp add: byte_le u0)
  have r4: "0xF0 \<le> b0 \<and> b0 \<le> 0xF4" using h by (simp add: byte_le u0)
  have f0: "b0 = 0xF0 \<longleftrightarrow> h = 0" by (simp add: byte_eq u0)
  have f4: "b0 = 0xF4 \<longleftrightarrow> h = 4" by (simp add: byte_eq u0)
  have e0: "b0 \<noteq> 0xE0" "b0 \<noteq> 0xED" by (simp_all add: byte_eq u0)
  have sec: "is_second b0 b1"
    using k lo hi by (simp add: is_second_def second_lo_def second_hi_def e0 f0 f4 byte_le u1)
  have cont: "is_cont b2" "is_cont b3" using m l by (simp_all add: is_cont_def byte_le u2 u3)
  have val: "(unat b0 - 0xF0) * 262144 + cont_bits b1 * 4096 + cont_bits b2 * 64 + cont_bits b3 = c"
    by (simp add: u0 u1 u2 u3 cont_bits_def c)
  have "utf8_decode (b0 # b1 # b2 # b3 # bs) = map_option (Cons c) (utf8_decode bs)"
    by (simp add: n1 n2 n3 r4 sec cont val)
  then show ?thesis
    by (simp only: b0_def b1_def b2_def b3_def h_def k_def m_def l_def)
qed

lemma decode_encode_cp:
  assumes "is_scalar c"
  shows "utf8_decode (encode_cp c @ bs) = map_option (Cons c) (utf8_decode bs)"
proof -
  consider "c < 0x80" | "0x80 \<le> c" "c < 0x800" | "0x800 \<le> c" "c < 0x10000"
    | "0x10000 \<le> c" "c < 0x110000"
    using assms unfolding is_scalar_def by arith
  then show ?thesis
  proof cases
    case 1
    then show ?thesis using dec1 [of c bs] by (simp add: encode_cp_def)
  next
    case 2
    then show ?thesis using dec2 [of c bs] by (simp add: encode_cp_def)
  next
    case 3
    then show ?thesis using dec3 [of c bs] assms by (simp add: encode_cp_def)
  next
    case 4
    then show ?thesis using dec4 [of c bs] by (simp add: encode_cp_def)
  qed
qed

lemma decode_encode: "list_all is_scalar s \<Longrightarrow> utf8_decode (utf8_encode s) = Some s"
proof (induction s)
  case Nil
  show ?case by (simp add: utf8_encode_def)
next
  case (Cons c s)
  then have "is_scalar c" and "utf8_decode (utf8_encode s) = Some s" by simp_all
  then show ?case
    using decode_encode_cp [of c "utf8_encode s"] by (simp add: utf8_encode_def)
qed

lemma undigits2:
  assumes "l < 64" "(c::nat) = h * 64 + l"
  shows "c div 64 = h" "c mod 64 = l"
  using assms by simp_all

lemma undigits3:
  assumes "l < 64" "m < 64" "(c::nat) = h * 4096 + m * 64 + l"
  shows "c div 4096 = h" "(c div 64) mod 64 = m" "c mod 64 = l"
proof -
  have c: "c = (h * 64 + m) * 64 + l" using assms(3) by simp
  from undigits2 [OF assms(1) c] show "c mod 64 = l" and q: "(c div 64) mod 64 = m"
    using assms(2) by simp_all
  have "c div 64 = h * 64 + m" using undigits2(1) [OF assms(1) c] .
  then have "c div 64 div 64 = h" using assms(2) by simp
  then show "c div 4096 = h" by (simp add: div_mult2_eq [symmetric])
qed

lemma undigits4:
  assumes "l < 64" "m < 64" "k < 64" "(c::nat) = h * 262144 + k * 4096 + m * 64 + l"
  shows "c div 262144 = h" "(c div 4096) mod 64 = k" "(c div 64) mod 64 = m" "c mod 64 = l"
proof -
  have c: "c = (h * 64 + k) * 4096 + m * 64 + l" using assms(4) by simp
  from undigits3 [OF assms(1,2) c]
  have q: "c div 4096 = h * 64 + k" and "(c div 64) mod 64 = m" and "c mod 64 = l" by simp_all
  then show "(c div 64) mod 64 = m" and "c mod 64 = l" by simp_all
  from q show "(c div 4096) mod 64 = k" using assms(3) by simp
  from q have "c div 4096 div 64 = h" using assms(3) by simp
  then show "c div 262144 = h" by (simp add: div_mult2_eq [symmetric])
qed

lemma byte_of_unat: "byte_of (unat b) = b"
  by (simp add: byte_of_def)

lemma unat_byte_bound: "unat (b::byte) < 256"
  using unsigned_less [of b, where ?'a = nat] by simp

lemma second3:
  assumes "0xE0 \<le> b0" "b0 \<le> 0xEF" "is_second b0 b1"
  shows "0x80 \<le> unat b1" "unat b1 \<le> 0xBF"
    "unat b0 = 0xE0 \<Longrightarrow> 0xA0 \<le> unat b1" "unat b0 = 0xED \<Longrightarrow> unat b1 \<le> 0x9F"
proof -
  have x: "0xE0 \<le> unat b0" "unat b0 \<le> 0xEF" using assms(1,2) by (simp_all add: byte_le)
  have f: "b0 \<noteq> 0xF0" "b0 \<noteq> 0xF4" using x by (simp_all add: byte_eq)
  have lo: "unat (second_lo b0) = (if unat b0 = 0xE0 then 0xA0 else 0x80)"
    using f by (simp add: second_lo_def byte_eq)
  have hi: "unat (second_hi b0) = (if unat b0 = 0xED then 0x9F else 0xBF)"
    using f by (simp add: second_hi_def byte_eq)
  from assms(3) have s: "unat (second_lo b0) \<le> unat b1" "unat b1 \<le> unat (second_hi b0)"
    by (simp_all add: is_second_def byte_le)
  from s(1) lo show "0x80 \<le> unat b1" by (simp split: if_splits)
  from s(2) hi show "unat b1 \<le> 0xBF" by (simp split: if_splits)
  from s(1) lo show "unat b0 = 0xE0 \<Longrightarrow> 0xA0 \<le> unat b1" by simp
  from s(2) hi show "unat b0 = 0xED \<Longrightarrow> unat b1 \<le> 0x9F" by simp
qed

lemma range3:
  assumes "(c::nat) = h * 4096 + m * 64 + l" "h \<le> 15" "m < 64" "l < 64"
    "h = 0 \<Longrightarrow> 32 \<le> m" "h = 13 \<Longrightarrow> m \<le> 31"
  shows "0x800 \<le> c" "c < 0x10000" "c < 0xD800 \<or> 0xE000 \<le> c"
proof -
  show "c < 0x10000" using assms(1-4) by simp
  show "0x800 \<le> c"
  proof (cases "h = 0")
    case True
    with assms(5) have "32 \<le> m" by simp
    with assms(1) show ?thesis by simp
  next
    case False
    then have "1 \<le> h" by simp
    with assms(1) show ?thesis by simp
  qed
  consider "h \<le> 12" | "h = 13" | "14 \<le> h" by arith
  then show "c < 0xD800 \<or> 0xE000 \<le> c"
  proof cases
    case 1
    with assms(1,3,4) show ?thesis by simp
  next
    case 2
    with assms(6) have "m \<le> 31" by simp
    with 2 assms(1,4) show ?thesis by simp
  next
    case 3
    with assms(1) show ?thesis by simp
  qed
qed

lemma second4:
  assumes "0xF0 \<le> b0" "b0 \<le> 0xF4" "is_second b0 b1"
  shows "0x80 \<le> unat b1" "unat b1 \<le> 0xBF"
    "unat b0 = 0xF0 \<Longrightarrow> 0x90 \<le> unat b1" "unat b0 = 0xF4 \<Longrightarrow> unat b1 \<le> 0x8F"
proof -
  have x: "0xF0 \<le> unat b0" "unat b0 \<le> 0xF4" using assms(1,2) by (simp_all add: byte_le)
  have f: "b0 \<noteq> 0xE0" "b0 \<noteq> 0xED" using x by (simp_all add: byte_eq)
  have lo: "unat (second_lo b0) = (if unat b0 = 0xF0 then 0x90 else 0x80)"
    using f by (simp add: second_lo_def byte_eq)
  have hi: "unat (second_hi b0) = (if unat b0 = 0xF4 then 0x8F else 0xBF)"
    using f by (simp add: second_hi_def byte_eq)
  from assms(3) have s: "unat (second_lo b0) \<le> unat b1" "unat b1 \<le> unat (second_hi b0)"
    by (simp_all add: is_second_def byte_le)
  from s(1) lo show "0x80 \<le> unat b1" by (simp split: if_splits)
  from s(2) hi show "unat b1 \<le> 0xBF" by (simp split: if_splits)
  from s(1) lo show "unat b0 = 0xF0 \<Longrightarrow> 0x90 \<le> unat b1" by simp
  from s(2) hi show "unat b0 = 0xF4 \<Longrightarrow> unat b1 \<le> 0x8F" by simp
qed

lemma range4:
  assumes "(c::nat) = h * 262144 + k * 4096 + m * 64 + l" "h \<le> 4" "k < 64" "m < 64" "l < 64"
    "h = 0 \<Longrightarrow> 16 \<le> k" "h = 4 \<Longrightarrow> k \<le> 15"
  shows "0x10000 \<le> c" "c < 0x110000"
proof -
  show "0x10000 \<le> c"
  proof (cases "h = 0")
    case True
    with assms(6) have "16 \<le> k" by simp
    with assms(1) show ?thesis by simp
  next
    case False
    then have "1 \<le> h" by simp
    with assms(1) show ?thesis by simp
  qed
  show "c < 0x110000"
  proof (cases "h = 4")
    case True
    with assms(7) have "k \<le> 15" by simp
    with True assms(1,4,5) show ?thesis by simp
  next
    case False
    with assms(2) have "h \<le> 3" by simp
    with assms(1,3,4,5) show ?thesis by simp
  qed
qed

lemma inv3:
  assumes "0xE0 \<le> b0" "b0 \<le> 0xEF" "is_second b0 b1" "is_cont b2"
  defines "c \<equiv> (unat b0 - 0xE0) * 4096 + cont_bits b1 * 64 + cont_bits b2"
  shows "encode_cp c = [b0, b1, b2]" "is_scalar c"
proof -
  define h where "h = unat b0 - 0xE0"
  define m where "m = unat b1 - 0x80"
  define l where "l = unat b2 - 0x80"
  have x: "0xE0 \<le> unat b0" "unat b0 \<le> 0xEF" using assms(1,2) by (simp_all add: byte_le)
  note y = second3 [OF assms(1,2,3)]
  have z: "0x80 \<le> unat b2" "unat b2 \<le> 0xBF" using assms(4) by (simp_all add: is_cont_def byte_le)
  have h: "h \<le> 15" "0xE0 + h = unat b0" using x by (simp_all add: h_def)
  have m: "m < 64" "0x80 + m = unat b1" using y(1,2) by (simp_all add: m_def)
  have l: "l < 64" "0x80 + l = unat b2" using z by (simp_all add: l_def)
  have lo: "h = 0 \<Longrightarrow> 32 \<le> m" using y(3) h(2) by (simp add: m_def)
  have hi: "h = 13 \<Longrightarrow> m \<le> 31" using y(4) h(2) by (simp add: m_def)
  have c: "c = h * 4096 + m * 64 + l" by (simp add: c_def h_def m_def l_def cont_bits_def)
  have d: "c div 4096 = h" "(c div 64) mod 64 = m" "c mod 64 = l"
    using undigits3 [OF l(1) m(1) c] by simp_all
  note r = range3 [OF c h(1) m(1) l(1) lo hi]
  from r show "is_scalar c" by (simp add: is_scalar_def)
  have n: "\<not> c < 0x80" "\<not> c < 0x800" using r(1) by simp_all
  show "encode_cp c = [b0, b1, b2]"
    by (simp add: encode_cp_def n r(2) d h(2) m(2) l(2) byte_of_unat)
qed

lemma inv1:
  assumes "b0 < 0x80"
  shows "encode_cp (unat b0) = [b0]" "is_scalar (unat b0)"
proof -
  have x: "unat b0 < 0x80" using assms by (simp add: byte_less)
  then show "encode_cp (unat b0) = [b0]" by (simp add: encode_cp_def byte_of_unat)
  from x show "is_scalar (unat b0)" by (simp add: is_scalar_def)
qed

lemma inv2:
  assumes "0xC2 \<le> b0" "b0 \<le> 0xDF" "is_cont b1"
  defines "c \<equiv> (unat b0 - 0xC0) * 64 + cont_bits b1"
  shows "encode_cp c = [b0, b1]" "is_scalar c"
proof -
  define h where "h = unat b0 - 0xC0"
  define l where "l = unat b1 - 0x80"
  have x: "0xC2 \<le> unat b0" "unat b0 \<le> 0xDF" using assms(1,2) by (simp_all add: byte_le)
  have y: "0x80 \<le> unat b1" "unat b1 \<le> 0xBF" using assms(3) by (simp_all add: is_cont_def byte_le)
  have h: "2 \<le> h" "h \<le> 31" "0xC0 + h = unat b0" using x by (simp_all add: h_def)
  have l: "l < 64" "0x80 + l = unat b1" using y by (simp_all add: l_def)
  have c: "c = h * 64 + l" by (simp add: c_def h_def l_def cont_bits_def)
  have d: "c div 64 = h" "c mod 64 = l" using undigits2 [OF l(1) c] by simp_all
  have r: "0x80 \<le> c" "c < 0x800" using c h l by simp_all
  from r show "is_scalar c" by (simp add: is_scalar_def)
  from r show "encode_cp c = [b0, b1]"
    by (simp add: encode_cp_def d h(3) l(2) byte_of_unat)
qed

lemma inv4:
  assumes "0xF0 \<le> b0" "b0 \<le> 0xF4" "is_second b0 b1" "is_cont b2" "is_cont b3"
  defines "c \<equiv> (unat b0 - 0xF0) * 262144 + cont_bits b1 * 4096 + cont_bits b2 * 64 + cont_bits b3"
  shows "encode_cp c = [b0, b1, b2, b3]" "is_scalar c"
proof -
  define h where "h = unat b0 - 0xF0"
  define k where "k = unat b1 - 0x80"
  define m where "m = unat b2 - 0x80"
  define l where "l = unat b3 - 0x80"
  have x: "0xF0 \<le> unat b0" "unat b0 \<le> 0xF4" using assms(1,2) by (simp_all add: byte_le)
  note y = second4 [OF assms(1,2,3)]
  have z: "0x80 \<le> unat b2" "unat b2 \<le> 0xBF" using assms(4) by (simp_all add: is_cont_def byte_le)
  have t: "0x80 \<le> unat b3" "unat b3 \<le> 0xBF" using assms(5) by (simp_all add: is_cont_def byte_le)
  have h: "h \<le> 4" "0xF0 + h = unat b0" using x by (simp_all add: h_def)
  have k: "k < 64" "0x80 + k = unat b1" using y(1,2) by (simp_all add: k_def)
  have m: "m < 64" "0x80 + m = unat b2" using z by (simp_all add: m_def)
  have l: "l < 64" "0x80 + l = unat b3" using t by (simp_all add: l_def)
  have lo: "h = 0 \<Longrightarrow> 16 \<le> k" using y(3) h(2) by (simp add: k_def)
  have hi: "h = 4 \<Longrightarrow> k \<le> 15" using y(4) h(2) by (simp add: k_def)
  have c: "c = h * 262144 + k * 4096 + m * 64 + l"
    by (simp add: c_def h_def k_def m_def l_def cont_bits_def)
  have d: "c div 262144 = h" "(c div 4096) mod 64 = k" "(c div 64) mod 64 = m" "c mod 64 = l"
    using undigits4 [OF l(1) m(1) k(1) c] by simp_all
  note r = range4 [OF c h(1) k(1) m(1) l(1) lo hi]
  from r show "is_scalar c" by (simp add: is_scalar_def)
  have n: "\<not> c < 0x80" "\<not> c < 0x800" "\<not> c < 0x10000" using r(1) by simp_all
  show "encode_cp c = [b0, b1, b2, b3]"
    by (simp add: encode_cp_def n d h(2) k(2) m(2) l(2) byte_of_unat)
qed

lemma step1:
  assumes "b0 < 0x80" "utf8_decode (b0 # bs) = Some s"
  shows "\<exists>s'. utf8_decode bs = Some s' \<and> s = unat b0 # s'"
  using assms by auto

lemma step2:
  assumes "\<not> b0 < 0x80" "0xC2 \<le> b0 \<and> b0 \<le> 0xDF" "utf8_decode (b0 # bs) = Some s"
  shows "\<exists>b1 r s'. bs = b1 # r \<and> is_cont b1 \<and> utf8_decode r = Some s'
           \<and> s = ((unat b0 - 0xC0) * 64 + cont_bits b1) # s'"
proof (cases bs)
  case Nil
  with assms show ?thesis by simp
next
  case (Cons b1 r)
  show ?thesis
  proof (cases "is_cont b1")
    case True
    with assms Cons show ?thesis by auto
  next
    case False
    with assms Cons show ?thesis by simp
  qed
qed

lemma unfold3:
  assumes "\<not> b0 < 0x80" "\<not> (0xC2 \<le> b0 \<and> b0 \<le> 0xDF)" "0xE0 \<le> b0 \<and> b0 \<le> 0xEF"
  shows "utf8_decode (b0 # bs) =
        (case bs of
           b1 # b2 # r \<Rightarrow>
             if is_second b0 b1 \<and> is_cont b2
             then map_option
                    (Cons ((unat b0 - 0xE0) * 4096 + cont_bits b1 * 64 + cont_bits b2))
                    (utf8_decode r)
             else None
         | _ \<Rightarrow> None)"
  by (simp only: utf8_decode.simps assms if_False if_True simp_thms)

lemma unfold4:
  assumes "\<not> b0 < 0x80" "\<not> (0xC2 \<le> b0 \<and> b0 \<le> 0xDF)" "\<not> (0xE0 \<le> b0 \<and> b0 \<le> 0xEF)"
    "0xF0 \<le> b0 \<and> b0 \<le> 0xF4"
  shows "utf8_decode (b0 # bs) =
        (case bs of
           b1 # b2 # b3 # r \<Rightarrow>
             if is_second b0 b1 \<and> is_cont b2 \<and> is_cont b3
             then map_option
                    (Cons ((unat b0 - 0xF0) * 262144 + cont_bits b1 * 4096
                           + cont_bits b2 * 64 + cont_bits b3))
                    (utf8_decode r)
             else None
         | _ \<Rightarrow> None)"
  by (simp only: utf8_decode.simps assms if_False if_True simp_thms)

lemma step5:
  assumes "\<not> b0 < 0x80" "\<not> (0xC2 \<le> b0 \<and> b0 \<le> 0xDF)" "\<not> (0xE0 \<le> b0 \<and> b0 \<le> 0xEF)"
    "\<not> (0xF0 \<le> b0 \<and> b0 \<le> 0xF4)"
  shows "utf8_decode (b0 # bs) = None"
  by (simp only: utf8_decode.simps assms if_False if_True simp_thms)

lemma step3:
  assumes "\<not> b0 < 0x80" "\<not> (0xC2 \<le> b0 \<and> b0 \<le> 0xDF)" "0xE0 \<le> b0 \<and> b0 \<le> 0xEF"
    "utf8_decode (b0 # bs) = Some s"
  shows "\<exists>b1 b2 r s'. bs = b1 # b2 # r \<and> is_second b0 b1 \<and> is_cont b2
           \<and> utf8_decode r = Some s'
           \<and> s = ((unat b0 - 0xE0) * 4096 + cont_bits b1 * 64 + cont_bits b2) # s'"
  using assms(4) unfolding unfold3 [OF assms(1-3)]
  by (auto split: list.splits if_splits)

lemma step4:
  assumes "\<not> b0 < 0x80" "\<not> (0xC2 \<le> b0 \<and> b0 \<le> 0xDF)" "\<not> (0xE0 \<le> b0 \<and> b0 \<le> 0xEF)"
    "0xF0 \<le> b0 \<and> b0 \<le> 0xF4" "utf8_decode (b0 # bs) = Some s"
  shows "\<exists>b1 b2 b3 r s'. bs = b1 # b2 # b3 # r \<and> is_second b0 b1 \<and> is_cont b2 \<and> is_cont b3
           \<and> utf8_decode r = Some s'
           \<and> s = ((unat b0 - 0xF0) * 262144 + cont_bits b1 * 4096
                      + cont_bits b2 * 64 + cont_bits b3) # s'"
  using assms(5) unfolding unfold4 [OF assms(1-4)]
  by (auto split: list.splits if_splits)

lemma encode_Cons:
  "utf8_encode (c # s) = encode_cp c @ utf8_encode s"
  by (simp add: utf8_encode_def)

lemma encode_decode:
  "utf8_decode bs = Some s \<Longrightarrow> utf8_encode s = bs \<and> list_all is_scalar s"
proof (induction "length bs" arbitrary: bs s rule: less_induct)
  case less
  show ?case
  proof (cases bs)
    case Nil
    with less.prems show ?thesis by (simp add: utf8_encode_def)
  next
    case (Cons b0 t)
    note dec = less.prems [unfolded Cons]
    consider (a) "b0 < 0x80"
      | (b) "\<not> b0 < 0x80" "0xC2 \<le> b0 \<and> b0 \<le> 0xDF"
      | (c) "\<not> b0 < 0x80" "\<not> (0xC2 \<le> b0 \<and> b0 \<le> 0xDF)" "0xE0 \<le> b0 \<and> b0 \<le> 0xEF"
      | (d) "\<not> b0 < 0x80" "\<not> (0xC2 \<le> b0 \<and> b0 \<le> 0xDF)" "\<not> (0xE0 \<le> b0 \<and> b0 \<le> 0xEF)"
            "0xF0 \<le> b0 \<and> b0 \<le> 0xF4"
      | (e) "\<not> b0 < 0x80" "\<not> (0xC2 \<le> b0 \<and> b0 \<le> 0xDF)" "\<not> (0xE0 \<le> b0 \<and> b0 \<le> 0xEF)"
            "\<not> (0xF0 \<le> b0 \<and> b0 \<le> 0xF4)"
      by blast
    then show ?thesis
    proof cases
      case a
      from step1 [OF a dec] obtain s' where d: "utf8_decode t = Some s'" and s: "s = unat b0 # s'"
        by blast
      have "length t < length bs" by (simp add: Cons)
      from less.hyps [OF this d] inv1 [OF a] show ?thesis
        by (simp add: s Cons encode_Cons)
    next
      case b
      from step2 [OF b dec] obtain b1 r s' where t: "t = b1 # r" and c1: "is_cont b1"
        and d: "utf8_decode r = Some s'"
        and s: "s = ((unat b0 - 0xC0) * 64 + cont_bits b1) # s'"
        by blast
      have "length r < length bs" by (simp add: Cons t)
      from less.hyps [OF this d] inv2 [of b0 b1] b(2) c1 show ?thesis
        by (simp add: s Cons t encode_Cons)
    next
      case c
      from step3 [OF c dec] obtain b1 b2 r s' where t: "t = b1 # b2 # r"
        and c1: "is_second b0 b1" "is_cont b2"
        and d: "utf8_decode r = Some s'"
        and s: "s = ((unat b0 - 0xE0) * 4096 + cont_bits b1 * 64 + cont_bits b2) # s'"
        by blast
      have "length r < length bs" by (simp add: Cons t)
      from less.hyps [OF this d] inv3 [of b0 b1 b2] c(3) c1 show ?thesis
        by (simp add: s Cons t encode_Cons)
    next
      case d
      from step4 [OF d dec] obtain b1 b2 b3 r s' where t: "t = b1 # b2 # b3 # r"
        and c1: "is_second b0 b1" "is_cont b2" "is_cont b3"
        and dr: "utf8_decode r = Some s'"
        and s: "s = ((unat b0 - 0xF0) * 262144 + cont_bits b1 * 4096
                      + cont_bits b2 * 64 + cont_bits b3) # s'"
        by blast
      have "length r < length bs" by (simp add: Cons t)
      from less.hyps [OF this dr] inv4 [of b0 b1 b2 b3] d(4) c1 show ?thesis
        by (simp add: s Cons t encode_Cons)
    next
      case e
      from step5 [OF e, of t] dec show ?thesis by simp
    qed
  qed
qed

lemma utf8_decode_iff:
  "utf8_decode bs = Some s \<longleftrightarrow> bs = utf8_encode s \<and> list_all is_scalar s"
  using encode_decode [of bs s] decode_encode [of s] by auto

lemma utf8_polyglot:
  "utf8_decode [0xC3, 0xA9, 0xE2, 0x82, 0xAC, 0xF0, 0x9F, 0x98, 0x80] = Some [233, 8364, 128512]"
  by (simp add: is_cont_def cont_bits_def is_second_def second_lo_def second_hi_def)

lemma utf8_polyglot_butlast:
  "utf8_decode (butlast [0xC3, 0xA9, 0xE2, 0x82, 0xAC, 0xF0, 0x9F, 0x98, 0x80, 0x0A])
     = Some [233, 8364, 128512]"
  by (simp add: is_cont_def cont_bits_def is_second_def second_lo_def second_hi_def)

lemma encode_polyglot:
  "utf8_encode [233, 8364, 128512] = [0xC3, 0xA9, 0xE2, 0x82, 0xAC, 0xF0, 0x9F, 0x98, 0x80]"
  by (simp add: utf8_encode_def encode_cp_def byte_of_def)

section \<open>Properties of the driver\<close>

text \<open>
  C1. When the loop over the dimensions runs through, the launches it has made are, for
  each dimension in the order \<^verbatim>\<open>1, 8, 64, 256\<close> and for each mode with \<^verbatim>\<open>prio\<close> before
  \<^verbatim>\<open>dprio\<close>, five consecutive launches of exactly the vector
  \<^verbatim>\<open>[path, -f, mode, -d, dimension, -c, 10000]\<close>, and nothing else.
\<close>

theorem dimension_grid_invocations:
  assumes "fst (dimension_grid L w) = Ok"
  shows "calls (snd (dimension_grid L w)) =
           calls w @
           concat (map (\<lambda>(d, m). replicate 5
                          [''./target/release/examples/comparison'', ''-f'', m, ''-d'', d, ''-c'', ''10000''])
                       (List.product [''1'', ''8'', ''64'', ''256''] [''prio'', ''dprio'']))"
proof -
  from assms have "outcome L (length (calls w)) dimension_plan = Ok"
    by (simp add: dimension_grid_status)
  then have "issued L (length (calls w)) dimension_plan = dimension_plan"
    by (rule issued_of_Ok)
  then have "calls (snd (dimension_grid L w)) = calls w @ dimension_plan"
    by (simp add: dimension_grid_calls)
  then show ?thesis by (simp only: dimension_plan_eq)
qed

theorem dimension_grid_invocations_witness:
  "fst (dimension_grid steady init_world) = Ok \<and>
   calls (snd (dimension_grid steady init_world)) =
     concat (map (\<lambda>(d, m). replicate 5
                    [''./target/release/examples/comparison'', ''-f'', m, ''-d'', d, ''-c'', ''10000''])
                 (List.product [''1'', ''8'', ''64'', ''256''] [''prio'', ''dprio'']))"
proof -
  have ok: "fst (dimension_grid steady init_world) = Ok"
    by (simp add: dimension_grid_status outcome_steady)
  have "calls init_world = []" by (simp add: init_world_def)
  with dimension_grid_invocations [OF ok] ok show ?thesis by simp
qed

text \<open>
  C2. When the loop over the client counts runs through, the launches it has made are, for
  each count in the order \<^verbatim>\<open>10000, 100000, 1000000\<close> and for each mode with \<^verbatim>\<open>prio\<close>
  before \<^verbatim>\<open>dprio\<close>, five consecutive launches of exactly the vector
  \<^verbatim>\<open>[path, -f, mode, -d, 1, -c, count]\<close>, and nothing else.
\<close>

theorem client_grid_invocations:
  assumes "fst (client_grid L w) = Ok"
  shows "calls (snd (client_grid L w)) =
           calls w @
           concat (map (\<lambda>(c, m). replicate 5
                          [''./target/release/examples/comparison'', ''-f'', m, ''-d'', ''1'', ''-c'', c])
                       (List.product [''10000'', ''100000'', ''1000000''] [''prio'', ''dprio'']))"
proof -
  from assms have "outcome L (length (calls w)) client_plan = Ok"
    by (simp add: client_grid_status)
  then have "issued L (length (calls w)) client_plan = client_plan"
    by (rule issued_of_Ok)
  then have "calls (snd (client_grid L w)) = calls w @ client_plan"
    by (simp add: client_grid_calls)
  then show ?thesis by (simp only: client_plan_eq)
qed

theorem client_grid_invocations_witness:
  "fst (client_grid steady init_world) = Ok \<and>
   calls (snd (client_grid steady init_world)) =
     concat (map (\<lambda>(c, m). replicate 5
                    [''./target/release/examples/comparison'', ''-f'', m, ''-d'', ''1'', ''-c'', c])
                 (List.product [''10000'', ''100000'', ''1000000''] [''prio'', ''dprio'']))"
proof -
  have ok: "fst (client_grid steady init_world) = Ok"
    by (simp add: client_grid_status outcome_steady)
  have "calls init_world = []" by (simp add: init_world_def)
  with client_grid_invocations [OF ok] ok show ?thesis by simp
qed

text \<open>
  C3. A sweep runs in full, that is, the script ends without an exception, exactly when
  each of its 70 launches succeeds. A sweep that runs in full has made exactly 70
  launches: the 40 of the dimension loop, in the order of C1, followed by the 30 of the
  client loop, in the order of C2.
\<close>

theorem full_sweep_invocations:
  "(fst (script L w) = Ok \<longleftrightarrow>
      (\<forall>j<70. succeeds (L (length (calls w) + j) (sweep_plan ! j))))
   \<and> (fst (script L w) = Ok \<longrightarrow>
      calls (snd (script L w)) =
        calls w
        @ concat (map (\<lambda>(d, m). replicate 5
                        [''./target/release/examples/comparison'', ''-f'', m, ''-d'', d, ''-c'', ''10000''])
                      (List.product [''1'', ''8'', ''64'', ''256''] [''prio'', ''dprio'']))
        @ concat (map (\<lambda>(c, m). replicate 5
                        [''./target/release/examples/comparison'', ''-f'', m, ''-d'', ''1'', ''-c'', c])
                      (List.product [''10000'', ''100000'', ''1000000''] [''prio'', ''dprio'']))
      \<and> length (calls (snd (script L w))) = length (calls w) + 70)
   \<and> sweep_plan =
        concat (map (\<lambda>(d, m). replicate 5
                        [''./target/release/examples/comparison'', ''-f'', m, ''-d'', d, ''-c'', ''10000''])
                      (List.product [''1'', ''8'', ''64'', ''256''] [''prio'', ''dprio'']))
        @ concat (map (\<lambda>(c, m). replicate 5
                        [''./target/release/examples/comparison'', ''-f'', m, ''-d'', ''1'', ''-c'', c])
                      (List.product [''10000'', ''100000'', ''1000000''] [''prio'', ''dprio'']))
   \<and> length (concat (map (\<lambda>(d, m). replicate 5
                        [''./target/release/examples/comparison'', ''-f'', m, ''-d'', d, ''-c'', ''10000''])
                      (List.product [''1'', ''8'', ''64'', ''256''] [''prio'', ''dprio'']))) = (40::nat)
   \<and> length (concat (map (\<lambda>(c, m). replicate 5
                        [''./target/release/examples/comparison'', ''-f'', m, ''-d'', ''1'', ''-c'', c])
                      (List.product [''10000'', ''100000'', ''1000000''] [''prio'', ''dprio'']))) = (30::nat)"
proof (intro conjI impI)
  show "fst (script L w) = Ok \<longleftrightarrow>
      (\<forall>j<70. succeeds (L (length (calls w) + j) (sweep_plan ! j)))"
    by (simp add: script_status outcome_Ok_iff length_sweep_plan)
next
  assume "fst (script L w) = Ok"
  then have "issued L (length (calls w)) sweep_plan = sweep_plan"
    by (simp add: script_status issued_of_Ok)
  then have c: "calls (snd (script L w)) = calls w @ dimension_plan @ client_plan"
    by (simp add: script_calls sweep_plan_def)
  then show "calls (snd (script L w)) =
        calls w
        @ concat (map (\<lambda>(d, m). replicate 5
                        [''./target/release/examples/comparison'', ''-f'', m, ''-d'', d, ''-c'', ''10000''])
                      (List.product [''1'', ''8'', ''64'', ''256''] [''prio'', ''dprio'']))
        @ concat (map (\<lambda>(c, m). replicate 5
                        [''./target/release/examples/comparison'', ''-f'', m, ''-d'', ''1'', ''-c'', c])
                      (List.product [''10000'', ''100000'', ''1000000''] [''prio'', ''dprio'']))"
    by (simp only: dimension_plan_eq client_plan_eq)
  from c show "length (calls (snd (script L w))) = length (calls w) + 70"
    by (simp add: length_dimension_plan length_client_plan)
next
  show "sweep_plan =
        concat (map (\<lambda>(d, m). replicate 5
                        [''./target/release/examples/comparison'', ''-f'', m, ''-d'', d, ''-c'', ''10000''])
                      (List.product [''1'', ''8'', ''64'', ''256''] [''prio'', ''dprio'']))
        @ concat (map (\<lambda>(c, m). replicate 5
                        [''./target/release/examples/comparison'', ''-f'', m, ''-d'', ''1'', ''-c'', c])
                      (List.product [''10000'', ''100000'', ''1000000''] [''prio'', ''dprio'']))"
    unfolding sweep_plan_def by (simp only: dimension_plan_eq client_plan_eq)
next
  show "length (concat (map (\<lambda>(d, m). replicate 5
                        [''./target/release/examples/comparison'', ''-f'', m, ''-d'', d, ''-c'', ''10000''])
                      (List.product [''1'', ''8'', ''64'', ''256''] [''prio'', ''dprio'']))) = (40::nat)"
    using length_dimension_plan by (simp only: dimension_plan_eq)
next
  show "length (concat (map (\<lambda>(c, m). replicate 5
                        [''./target/release/examples/comparison'', ''-f'', m, ''-d'', ''1'', ''-c'', c])
                      (List.product [''10000'', ''100000'', ''1000000''] [''prio'', ''dprio'']))) = (30::nat)"
    using length_client_plan by (simp only: client_plan_eq)
qed

theorem full_sweep_invocations_witness:
  "fst (script steady init_world) = Ok \<and>
   length (calls (snd (script steady init_world))) = 70 \<and>
   calls (snd (script steady init_world)) =
        concat (map (\<lambda>(d, m). replicate 5
                        [''./target/release/examples/comparison'', ''-f'', m, ''-d'', d, ''-c'', ''10000''])
                      (List.product [''1'', ''8'', ''64'', ''256''] [''prio'', ''dprio'']))
        @ concat (map (\<lambda>(c, m). replicate 5
                        [''./target/release/examples/comparison'', ''-f'', m, ''-d'', ''1'', ''-c'', c])
                      (List.product [''10000'', ''100000'', ''1000000''] [''prio'', ''dprio'']))"
proof -
  have good: "\<forall>j<70. succeeds (steady (length (calls init_world) + j) (sweep_plan ! j))"
    by (simp add: steady_succeeds)
  have e: "calls init_world = []" by (simp add: init_world_def)
  from full_sweep_invocations [of steady init_world] good
  have ok: "fst (script steady init_world) = Ok" by blast
  from full_sweep_invocations [of steady init_world] ok
  have "calls (snd (script steady init_world)) =
        calls init_world
        @ concat (map (\<lambda>(d, m). replicate 5
                        [''./target/release/examples/comparison'', ''-f'', m, ''-d'', d, ''-c'', ''10000''])
                      (List.product [''1'', ''8'', ''64'', ''256''] [''prio'', ''dprio'']))
        @ concat (map (\<lambda>(c, m). replicate 5
                        [''./target/release/examples/comparison'', ''-f'', m, ''-d'', ''1'', ''-c'', c])
                      (List.product [''10000'', ''100000'', ''1000000''] [''prio'', ''dprio'']))"
    and "length (calls (snd (script steady init_world))) = length (calls init_world) + 70"
    by blast+
  with ok e show ?thesis by simp
qed

text \<open>
  C4. That the process exits with status 0 does not make \<^verbatim>\<open>run\<close> print: in the
  environment \<open>garbled\<close> the process exits with status 0, its output without the last
  byte is the byte \<^verbatim>\<open>FF\<close>, and \<^verbatim>\<open>run\<close> raises \<^verbatim>\<open>UnicodeDecodeError\<close> and prints nothing.
\<close>

theorem exit0_run_prints_nothing_counterexample:
  "garbled (length (calls sample_world)) (heap sample_world 0) = Exited 0 [0xFF, 0x0A] [] \<and>
   fst (run garbled 0 sample_world) = Raised (UnicodeDecodeError [0xFF]) \<and>
   console (snd (run garbled 0 sample_world)) = console sample_world"
proof -
  have h: "garbled (length (calls sample_world)) (heap sample_world 0) = Exited 0 [0xFF, 0x0A] []"
    by (simp add: garbled_def)
  from run_exit0 [where L = garbled and w = sample_world and a = 0
                    and out = "[0xFF, 0x0A]" and err = "[]"] h
  have "run garbled 0 sample_world =
          (Raised (UnicodeDecodeError [0xFF]),
           sample_world\<lparr>calls := calls sample_world @ [heap sample_world 0]\<rparr>)"
    by (simp add: utf8_ff)
  with h show ?thesis by simp
qed

text \<open>
  C4, amended. When the process of a launch exits with status 0 and its captured standard
  output without the last byte is the UTF-8 encoding of a text \<open>s\<close> of Unicode scalar
  values, \<^verbatim>\<open>run\<close> prints \<open>s\<close> followed by one newline and returns. In every case of status
  0, \<^verbatim>\<open>run\<close> drops exactly the last byte and decodes the rest: it prints the decoded text
  and one newline, or, when the bytes do not decode, raises and prints nothing. The
  decoder returns a text exactly for the UTF-8 encodings of texts of scalar values, and
  returns the text encoded. For the output \<^verbatim>\<open>hello\<close> and a newline \<^verbatim>\<open>run\<close> prints the code
  points of \<^verbatim>\<open>hello\<close> and one newline; for the encoding of \<^verbatim>\<open>U+00E9 U+20AC U+1F600\<close> and a
  newline it prints these three code points and one newline.
\<close>

theorem run_prints_decoded_output:
  "(L (length (calls w)) (heap w a) = Exited 0 out err
      \<and> butlast out = utf8_encode s \<and> list_all is_scalar s \<longrightarrow>
      run L a w =
        (Ok, w\<lparr>calls := calls w @ [heap w a], console := console w @ s @ [10]\<rparr>))
   \<and> (L (length (calls w)) (heap w a) = Exited 0 out err \<longrightarrow>
      run L a w =
        (case utf8_decode (butlast out) of
           Some t \<Rightarrow> (Ok, w\<lparr>calls := calls w @ [heap w a], console := console w @ t @ [10]\<rparr>)
         | None \<Rightarrow> (Raised (UnicodeDecodeError (butlast out)), w\<lparr>calls := calls w @ [heap w a]\<rparr>)))
   \<and> (utf8_decode bs = Some u \<longleftrightarrow> bs = utf8_encode u \<and> list_all is_scalar u)
   \<and> (L (length (calls w)) (heap w a) = Exited 0 [0x68, 0x65, 0x6C, 0x6C, 0x6F, 0x0A] err \<longrightarrow>
      run L a w =
        (Ok, w\<lparr>calls := calls w @ [heap w a],
               console := console w @ [104, 101, 108, 108, 111, 10]\<rparr>))
   \<and> (L (length (calls w)) (heap w a)
         = Exited 0 [0xC3, 0xA9, 0xE2, 0x82, 0xAC, 0xF0, 0x9F, 0x98, 0x80, 0x0A] err \<longrightarrow>
      run L a w =
        (Ok, w\<lparr>calls := calls w @ [heap w a],
               console := console w @ [233, 8364, 128512, 10]\<rparr>))"
proof (intro conjI impI)
  assume a: "L (length (calls w)) (heap w a) = Exited 0 out err
      \<and> butlast out = utf8_encode s \<and> list_all is_scalar s"
  then have "utf8_decode (butlast out) = Some s" by (simp add: decode_encode)
  with a run_exit0 [where L = L and w = w and a = a and out = out and err = err]
  show "run L a w =
        (Ok, w\<lparr>calls := calls w @ [heap w a], console := console w @ s @ [10]\<rparr>)"
    by simp
next
  assume "L (length (calls w)) (heap w a) = Exited 0 out err"
  then show "run L a w =
        (case utf8_decode (butlast out) of
           Some t \<Rightarrow> (Ok, w\<lparr>calls := calls w @ [heap w a], console := console w @ t @ [10]\<rparr>)
         | None \<Rightarrow> (Raised (UnicodeDecodeError (butlast out)), w\<lparr>calls := calls w @ [heap w a]\<rparr>))"
    by (rule run_exit0)
next
  show "utf8_decode bs = Some u \<longleftrightarrow> bs = utf8_encode u \<and> list_all is_scalar u"
    using encode_decode [of bs u] decode_encode [of u] by auto
next
  assume "L (length (calls w)) (heap w a) = Exited 0 [0x68, 0x65, 0x6C, 0x6C, 0x6F, 0x0A] err"
  with run_exit0 [where L = L and w = w and a = a and err = err
                       and out = "[0x68, 0x65, 0x6C, 0x6C, 0x6F, 0x0A]"]
  show "run L a w =
        (Ok, w\<lparr>calls := calls w @ [heap w a],
               console := console w @ [104, 101, 108, 108, 111, 10]\<rparr>)"
    by (simp add: utf8_hello)
next
  assume "L (length (calls w)) (heap w a)
         = Exited 0 [0xC3, 0xA9, 0xE2, 0x82, 0xAC, 0xF0, 0x9F, 0x98, 0x80, 0x0A] err"
  with run_exit0 [where L = L and w = w and a = a and err = err
                       and out = "[0xC3, 0xA9, 0xE2, 0x82, 0xAC, 0xF0, 0x9F, 0x98, 0x80, 0x0A]"]
  have "run L a w =
     (case utf8_decode (butlast [0xC3, 0xA9, 0xE2, 0x82, 0xAC, 0xF0, 0x9F, 0x98, 0x80, 0x0A]) of
        Some t \<Rightarrow> (Ok, w\<lparr>calls := calls w @ [heap w a], console := console w @ t @ [10]\<rparr>)
      | None \<Rightarrow> (Raised (UnicodeDecodeError
                          (butlast [0xC3, 0xA9, 0xE2, 0x82, 0xAC, 0xF0, 0x9F, 0x98, 0x80, 0x0A])),
                 w\<lparr>calls := calls w @ [heap w a]\<rparr>))"
    by blast
  then have "run L a w =
        (Ok, w\<lparr>calls := calls w @ [heap w a],
               console := console w @ [233, 8364, 128512] @ [10]\<rparr>)"
    by (simp only: utf8_polyglot_butlast option.case)
  then show "run L a w =
        (Ok, w\<lparr>calls := calls w @ [heap w a],
               console := console w @ [233, 8364, 128512, 10]\<rparr>)"
    by simp
qed

theorem run_prints_decoded_output_witness:
  "greeter (length (calls sample_world)) (heap sample_world 0)
     = Exited 0 [0x68, 0x65, 0x6C, 0x6C, 0x6F, 0x0A] [] \<and>
   fst (run greeter 0 sample_world) = Ok \<and>
   console (snd (run greeter 0 sample_world)) = [104, 101, 108, 108, 111, 10] \<and>
   calls (snd (run greeter 0 sample_world)) = [invocation ''prio'' ''1'' ''10000''] \<and>
   butlast [0xC3, 0xA9, 0xE2, 0x82, 0xAC, 0xF0, 0x9F, 0x98, 0x80, 0x0A]
     = utf8_encode [233, 8364, 128512] \<and>
   list_all is_scalar [233, 8364, 128512] \<and>
   fst (run polyglot 0 sample_world) = Ok \<and>
   console (snd (run polyglot 0 sample_world)) = [233, 8364, 128512, 10]"
proof -
  have h: "greeter (length (calls sample_world)) (heap sample_world 0)
             = Exited 0 [0x68, 0x65, 0x6C, 0x6C, 0x6F, 0x0A] []"
    by (simp add: greeter_def)
  with run_prints_decoded_output [where L = greeter and w = sample_world and a = 0 and err = "[]"]
  have g: "run greeter 0 sample_world =
        (Ok, sample_world\<lparr>calls := calls sample_world @ [heap sample_world 0],
               console := console sample_world @ [104, 101, 108, 108, 111, 10]\<rparr>)"
    by blast
  have e: "butlast [0xC3, 0xA9, 0xE2, 0x82, 0xAC, 0xF0, 0x9F, 0x98, 0x80, 0x0A]
             = utf8_encode [233, 8364, 128512]"
    by (simp add: encode_polyglot)
  have v: "list_all is_scalar [233, 8364, 128512]" by (simp add: is_scalar_def)
  have p: "polyglot (length (calls sample_world)) (heap sample_world 0)
             = Exited 0 [0xC3, 0xA9, 0xE2, 0x82, 0xAC, 0xF0, 0x9F, 0x98, 0x80, 0x0A] []"
    by (simp add: polyglot_def)
  with e v run_prints_decoded_output [where L = polyglot and w = sample_world and a = 0
         and out = "[0xC3, 0xA9, 0xE2, 0x82, 0xAC, 0xF0, 0x9F, 0x98, 0x80, 0x0A]" and err = "[]"
         and s = "[233, 8364, 128512]"]
  have q: "run polyglot 0 sample_world =
        (Ok, sample_world\<lparr>calls := calls sample_world @ [heap sample_world 0],
               console := console sample_world @ [233, 8364, 128512] @ [10]\<rparr>)"
    by blast
  from g have g1: "fst (run greeter 0 sample_world) = Ok"
    and g2: "console (snd (run greeter 0 sample_world)) = [104, 101, 108, 108, 111, 10]"
    and g3: "calls (snd (run greeter 0 sample_world)) = [invocation ''prio'' ''1'' ''10000'']"
    by (simp_all add: sample_world_simps)
  from q have q1: "fst (run polyglot 0 sample_world) = Ok"
    and q2: "console (snd (run polyglot 0 sample_world)) = [233, 8364, 128512, 10]"
    by (simp_all add: sample_world_simps)
  from h g1 g2 g3 e v q1 q2 show ?thesis by blast
qed

text \<open>
  C5. When the process of a launch exits with a status other than 0, \<^verbatim>\<open>run\<close> raises
  \<^verbatim>\<open>CalledProcessError\<close> with that status and the argument vector, and prints nothing.
  In a sweep whose launch number \<open>k\<close> is the first to fail, and fails so, the script ends
  with that exception, the launches made are the first \<open>k + 1\<close> of the plan and no more,
  and what was printed is what the \<open>k\<close> launches before printed.
\<close>

theorem nonzero_exit_aborts_sweep:
  "(L (length (calls w)) (heap w a) = Exited rc out err \<and> rc \<noteq> 0 \<longrightarrow>
      run L a w = (Raised (CalledProcessError rc (heap w a) out err),
                   w\<lparr>calls := calls w @ [heap w a]\<rparr>))
   \<and> (k < length sweep_plan
        \<and> (\<forall>j<k. succeeds (L (length (calls w) + j) (sweep_plan ! j)))
        \<and> L (length (calls w) + k) (sweep_plan ! k) = Exited rc out err \<and> rc \<noteq> 0 \<longrightarrow>
      fst (script L w) = Raised (CalledProcessError rc (sweep_plan ! k) out err)
      \<and> calls (snd (script L w)) = calls w @ take (Suc k) sweep_plan
      \<and> console (snd (script L w)) = console w @ printed L (length (calls w)) (take k sweep_plan))"
proof (intro conjI impI)
  assume "L (length (calls w)) (heap w a) = Exited rc out err \<and> rc \<noteq> 0"
  then show "run L a w = (Raised (CalledProcessError rc (heap w a) out err),
                   w\<lparr>calls := calls w @ [heap w a]\<rparr>)"
    using run_nonzero [where L = L and w = w and a = a and rc = rc and out = out and err = err]
    by blast
next
  assume a: "k < length sweep_plan
        \<and> (\<forall>j<k. succeeds (L (length (calls w) + j) (sweep_plan ! j)))
        \<and> L (length (calls w) + k) (sweep_plan ! k) = Exited rc out err \<and> rc \<noteq> 0"
  then have "attempt L (length (calls w) + k) (sweep_plan ! k)
               = Inl (CalledProcessError rc (sweep_plan ! k) out err)"
    by (simp add: attempt_def)
  with a sweep_first_failure [of k L w "CalledProcessError rc (sweep_plan ! k) out err"]
  show "fst (script L w) = Raised (CalledProcessError rc (sweep_plan ! k) out err)"
    and "calls (snd (script L w)) = calls w @ take (Suc k) sweep_plan"
    and "console (snd (script L w)) = console w @ printed L (length (calls w)) (take k sweep_plan)"
    by blast+
qed

theorem nonzero_exit_aborts_sweep_witness:
  "fst (run (failing_at 0) 0 sample_world)
     = Raised (CalledProcessError 1 (invocation ''prio'' ''1'' ''10000'') [0x6E, 0x6F, 0x0A] [0x21]) \<and>
   console (snd (run (failing_at 0) 0 sample_world)) = [] \<and>
   fst (script (failing_at 12) init_world)
     = Raised (CalledProcessError 1 (invocation ''prio'' ''8'' ''10000'') [0x6E, 0x6F, 0x0A] [0x21]) \<and>
   calls (snd (script (failing_at 12) init_world)) = take 13 sweep_plan \<and>
   length (calls (snd (script (failing_at 12) init_world))) = 13 \<and>
   console (snd (script (failing_at 12) init_world)) = concat (replicate 12 [111, 107, 10])"
proof -
  have r: "failing_at 0 (length (calls sample_world)) (heap sample_world 0)
             = Exited 1 [0x6E, 0x6F, 0x0A] [0x21] \<and> (1::int) \<noteq> 0"
    by (simp add: failing_at_def sample_world_simps)
  with nonzero_exit_aborts_sweep [where L = "failing_at 0" and w = sample_world and a = 0
         and rc = 1 and out = "[0x6E, 0x6F, 0x0A]" and err = "[0x21]"]
  have "run (failing_at 0) 0 sample_world =
          (Raised (CalledProcessError 1 (heap sample_world 0) [0x6E, 0x6F, 0x0A] [0x21]),
           sample_world\<lparr>calls := calls sample_world @ [heap sample_world 0]\<rparr>)"
    by blast
  then have p1: "fst (run (failing_at 0) 0 sample_world)
     = Raised (CalledProcessError 1 (invocation ''prio'' ''1'' ''10000'') [0x6E, 0x6F, 0x0A] [0x21])"
    and p2: "console (snd (run (failing_at 0) 0 sample_world)) = []"
    by (simp_all add: sample_world_simps)
  have e: "calls init_world = []" "console init_world = []" by (simp_all add: init_world_def)
  have h: "12 < length sweep_plan
        \<and> (\<forall>j<12. succeeds (failing_at 12 (length (calls init_world) + j) (sweep_plan ! j)))
        \<and> failing_at 12 (length (calls init_world) + 12) (sweep_plan ! 12)
            = Exited 1 [0x6E, 0x6F, 0x0A] [0x21] \<and> (1::int) \<noteq> 0"
    by (simp add: length_sweep_plan e failing_at_def steady_succeeds)
  with nonzero_exit_aborts_sweep [where L = "failing_at 12" and w = init_world and k = 12
         and rc = 1 and out = "[0x6E, 0x6F, 0x0A]" and err = "[0x21]"]
  have s1: "fst (script (failing_at 12) init_world)
              = Raised (CalledProcessError 1 (sweep_plan ! 12) [0x6E, 0x6F, 0x0A] [0x21])"
    and s2: "calls (snd (script (failing_at 12) init_world)) = calls init_world @ take (Suc 12) sweep_plan"
    and s3: "console (snd (script (failing_at 12) init_world))
              = console init_world @ printed (failing_at 12) (length (calls init_world)) (take 12 sweep_plan)"
    by blast+
  have pr: "printed (failing_at 12) 0 (take 12 sweep_plan)
              = concat (replicate (length (take 12 sweep_plan)) ([111, 107] @ [10]))"
    by (rule printed_uniform) (simp add: attempt_failing_before)
  from s1 have q1: "fst (script (failing_at 12) init_world)
     = Raised (CalledProcessError 1 (invocation ''prio'' ''8'' ''10000'') [0x6E, 0x6F, 0x0A] [0x21])"
    by (simp add: sweep_plan_12)
  from s2 have q2: "calls (snd (script (failing_at 12) init_world)) = take 13 sweep_plan"
    by (simp add: e)
  then have q3: "length (calls (snd (script (failing_at 12) init_world))) = 13"
    by (simp add: length_sweep_plan)
  from s3 pr have q4: "console (snd (script (failing_at 12) init_world)) = concat (replicate 12 [111, 107, 10])"
    by (simp add: e length_sweep_plan)
  from p1 p2 q1 q2 q3 q4 show ?thesis by blast
qed

text \<open>
  C6. When the process of a launch exits with status 0 and its output without the last
  byte is not valid UTF-8, \<^verbatim>\<open>run\<close> raises \<^verbatim>\<open>UnicodeDecodeError\<close> and prints nothing. In a
  sweep whose launch number \<open>k\<close> is the first to fail, and fails so, the script ends with
  that exception and the launches made are the first \<open>k + 1\<close> of the plan and no more.
\<close>

theorem undecodable_output_aborts_sweep:
  "(L (length (calls w)) (heap w a) = Exited 0 out err \<and> utf8_decode (butlast out) = None \<longrightarrow>
      run L a w = (Raised (UnicodeDecodeError (butlast out)), w\<lparr>calls := calls w @ [heap w a]\<rparr>))
   \<and> (k < length sweep_plan
        \<and> (\<forall>j<k. succeeds (L (length (calls w) + j) (sweep_plan ! j)))
        \<and> L (length (calls w) + k) (sweep_plan ! k) = Exited 0 out err
        \<and> utf8_decode (butlast out) = None \<longrightarrow>
      fst (script L w) = Raised (UnicodeDecodeError (butlast out))
      \<and> calls (snd (script L w)) = calls w @ take (Suc k) sweep_plan
      \<and> console (snd (script L w)) = console w @ printed L (length (calls w)) (take k sweep_plan))"
proof (intro conjI impI)
  assume "L (length (calls w)) (heap w a) = Exited 0 out err \<and> utf8_decode (butlast out) = None"
  then show "run L a w = (Raised (UnicodeDecodeError (butlast out)), w\<lparr>calls := calls w @ [heap w a]\<rparr>)"
    using run_exit0 [where L = L and w = w and a = a and out = out and err = err]
    by simp
next
  assume a: "k < length sweep_plan
        \<and> (\<forall>j<k. succeeds (L (length (calls w) + j) (sweep_plan ! j)))
        \<and> L (length (calls w) + k) (sweep_plan ! k) = Exited 0 out err
        \<and> utf8_decode (butlast out) = None"
  then have "attempt L (length (calls w) + k) (sweep_plan ! k) = Inl (UnicodeDecodeError (butlast out))"
    by (simp add: attempt_undecodable)
  with a sweep_first_failure [of k L w "UnicodeDecodeError (butlast out)"]
  show "fst (script L w) = Raised (UnicodeDecodeError (butlast out))"
    and "calls (snd (script L w)) = calls w @ take (Suc k) sweep_plan"
    and "console (snd (script L w)) = console w @ printed L (length (calls w)) (take k sweep_plan)"
    by blast+
qed

theorem undecodable_output_aborts_sweep_witness:
  "fst (run (garbled_at 0) 0 sample_world) = Raised (UnicodeDecodeError [0xFF]) \<and>
   console (snd (run (garbled_at 0) 0 sample_world)) = [] \<and>
   fst (script (garbled_at 45) init_world) = Raised (UnicodeDecodeError [0xFF]) \<and>
   calls (snd (script (garbled_at 45) init_world)) = take 46 sweep_plan \<and>
   length (calls (snd (script (garbled_at 45) init_world))) = 46 \<and>
   console (snd (script (garbled_at 45) init_world)) = concat (replicate 45 [111, 107, 10])"
proof -
  have r: "garbled_at 0 (length (calls sample_world)) (heap sample_world 0) = Exited 0 [0xFF, 0x0A] []
           \<and> utf8_decode (butlast [0xFF, 0x0A]) = None"
    by (simp add: garbled_at_def sample_world_simps)
  with undecodable_output_aborts_sweep [where L = "garbled_at 0" and w = sample_world and a = 0
         and out = "[0xFF, 0x0A]" and err = "[]"]
  have "run (garbled_at 0) 0 sample_world =
          (Raised (UnicodeDecodeError (butlast [0xFF, 0x0A])),
           sample_world\<lparr>calls := calls sample_world @ [heap sample_world 0]\<rparr>)"
    by blast
  then have p1: "fst (run (garbled_at 0) 0 sample_world) = Raised (UnicodeDecodeError [0xFF])"
    and p2: "console (snd (run (garbled_at 0) 0 sample_world)) = []"
    by (simp_all add: sample_world_simps)
  have e: "calls init_world = []" "console init_world = []" by (simp_all add: init_world_def)
  have h: "45 < length sweep_plan
        \<and> (\<forall>j<45. succeeds (garbled_at 45 (length (calls init_world) + j) (sweep_plan ! j)))
        \<and> garbled_at 45 (length (calls init_world) + 45) (sweep_plan ! 45) = Exited 0 [0xFF, 0x0A] []
        \<and> utf8_decode (butlast [0xFF, 0x0A]) = None"
    by (simp add: length_sweep_plan e garbled_at_def steady_succeeds)
  with undecodable_output_aborts_sweep [where L = "garbled_at 45" and w = init_world and k = 45
         and out = "[0xFF, 0x0A]" and err = "[]"]
  have s1: "fst (script (garbled_at 45) init_world) = Raised (UnicodeDecodeError (butlast [0xFF, 0x0A]))"
    and s2: "calls (snd (script (garbled_at 45) init_world)) = calls init_world @ take (Suc 45) sweep_plan"
    and s3: "console (snd (script (garbled_at 45) init_world))
              = console init_world @ printed (garbled_at 45) (length (calls init_world)) (take 45 sweep_plan)"
    by blast+
  have pr: "printed (garbled_at 45) 0 (take 45 sweep_plan)
              = concat (replicate (length (take 45 sweep_plan)) ([111, 107] @ [10]))"
    by (rule printed_uniform) (simp add: attempt_garbled_before)
  from s1 have q1: "fst (script (garbled_at 45) init_world) = Raised (UnicodeDecodeError [0xFF])"
    by simp
  from s2 have q2: "calls (snd (script (garbled_at 45) init_world)) = take 46 sweep_plan"
    by (simp add: e)
  then have q3: "length (calls (snd (script (garbled_at 45) init_world))) = 46"
    by (simp add: length_sweep_plan)
  from s3 pr have q4: "console (snd (script (garbled_at 45) init_world)) = concat (replicate 45 [111, 107, 10])"
    by (simp add: e length_sweep_plan)
  from p1 p2 q1 q2 q3 q4 show ?thesis by blast
qed

text \<open>
  C7. What \<^verbatim>\<open>run\<close> prints is a function of the exit status and the standard output of the
  process alone: two launches with the same status and the same standard output make
  \<^verbatim>\<open>run\<close> print the same text, whatever each wrote to standard error, and that text is
  given by a formula in which standard error does not occur. The same holds of a whole
  sweep: two environments that differ only in what the processes write to standard
  error make the script print the same text and launch the same vectors.
\<close>

theorem run_ignores_stderr:
  "(L1 (length (calls w)) (heap w a) = Exited rc out e1
      \<and> L2 (length (calls w)) (heap w a) = Exited rc out e2 \<longrightarrow>
      console (snd (run L1 a w)) = console (snd (run L2 a w)) \<and>
      console (snd (run L1 a w)) =
        console w @ (if rc = 0
                     then (case utf8_decode (butlast out) of Some s \<Rightarrow> s @ [10] | None \<Rightarrow> [])
                     else []))
   \<and> ((\<forall>i v. visible (L1 i v) = visible (L2 i v)) \<longrightarrow>
      console (snd (script L1 w)) = console (snd (script L2 w)) \<and>
      calls (snd (script L1 w)) = calls (snd (script L2 w)))"
proof (intro conjI impI)
  assume a: "L1 (length (calls w)) (heap w a) = Exited rc out e1
      \<and> L2 (length (calls w)) (heap w a) = Exited rc out e2"
  with run_same_console [where ?L1.0 = L1 and ?L2.0 = L2 and w = w and a = a and rc = rc
                            and out = out and ?e1.0 = e1 and ?e2.0 = e2]
  show "console (snd (run L1 a w)) = console (snd (run L2 a w))"
    and "console (snd (run L1 a w)) =
        console w @ (if rc = 0
                     then (case utf8_decode (butlast out) of Some s \<Rightarrow> s @ [10] | None \<Rightarrow> [])
                     else [])"
    by blast+
next
  assume v: "\<forall>i v. visible (L1 i v) = visible (L2 i v)"
  from trace_visible [OF v, of "length (calls w)" sweep_plan]
  show "console (snd (script L1 w)) = console (snd (script L2 w))"
    and "calls (snd (script L1 w)) = calls (snd (script L2 w))"
    by (simp_all add: script_console script_calls)
qed

theorem run_ignores_stderr_witness:
  "steady (length (calls sample_world)) (heap sample_world 0) = Exited 0 [0x6F, 0x6B, 0x0A] [0x21] \<and>
   noisy (length (calls sample_world)) (heap sample_world 0)
     = Exited 0 [0x6F, 0x6B, 0x0A] [0x45, 0x52, 0x52] \<and>
   console (snd (run steady 0 sample_world)) = console (snd (run noisy 0 sample_world)) \<and>
   console (snd (run steady 0 sample_world)) = [111, 107, 10] \<and>
   (\<forall>i v. visible (steady i v) = visible (noisy i v)) \<and>
   console (snd (script steady init_world)) = console (snd (script noisy init_world))"
proof -
  have h1: "steady (length (calls sample_world)) (heap sample_world 0)
              = Exited 0 [0x6F, 0x6B, 0x0A] [0x21]"
    by (simp add: steady_def)
  have h2: "noisy (length (calls sample_world)) (heap sample_world 0)
              = Exited 0 [0x6F, 0x6B, 0x0A] [0x45, 0x52, 0x52]"
    by (simp add: noisy_def)
  from run_ignores_stderr [where ?L1.0 = steady and ?L2.0 = noisy and w = sample_world
                              and a = 0 and rc = 0 and out = "[0x6F, 0x6B, 0x0A]"
                              and ?e1.0 = "[0x21]" and ?e2.0 = "[0x45, 0x52, 0x52]"] h1 h2
  have c1: "console (snd (run steady 0 sample_world)) = console (snd (run noisy 0 sample_world))"
    and c2: "console (snd (run steady 0 sample_world)) = [111, 107, 10]"
    by (auto simp add: sample_world_simps)
  have v: "\<forall>i v. visible (steady i v) = visible (noisy i v)"
    by (simp add: visible_def steady_def noisy_def)
  with run_ignores_stderr [where ?L1.0 = steady and ?L2.0 = noisy and w = init_world]
  have c3: "console (snd (script steady init_world)) = console (snd (script noisy init_world))"
    by blast
  from h1 h2 c1 c2 v c3 show ?thesis by blast
qed

text \<open>
  C8. When the process of a launch exits with status 0 and has written nothing, the slice
  of the empty bytes object is the empty bytes object, \<^verbatim>\<open>run\<close> does not raise, and it
  prints one empty line.
\<close>

theorem run_empty_output:
  assumes "L (length (calls w)) (heap w a) = Exited 0 [] err"
  shows "slice_to_minus1 ([] :: bytes) = [] \<and>
         run L a w = (Ok, w\<lparr>calls := calls w @ [heap w a], console := console w @ [10]\<rparr>)"
  using run_exit0 [where L = L and w = w and a = a and err = err and out = "[]"] assms
  by (simp add: slice_to_minus1_def)

theorem run_empty_output_witness:
  "silent (length (calls sample_world)) (heap sample_world 0) = Exited 0 [] [] \<and>
   fst (run silent 0 sample_world) = Ok \<and>
   console (snd (run silent 0 sample_world)) = [10]"
proof -
  have h: "silent (length (calls sample_world)) (heap sample_world 0) = Exited 0 [] []"
    by (simp add: silent_def)
  from run_empty_output [where L = silent and w = sample_world and a = 0 and err = "[]"] h
  show ?thesis by (simp add: sample_world_simps)
qed

text \<open>
  C9. \<^verbatim>\<open>run\<close> writes to no list object: the store of lists after a call of \<^verbatim>\<open>run\<close> is the
  store before it, and so it is after the five calls that the script makes with one
  list; every launch of those five calls is made with the contents the list had before
  the first.
\<close>

theorem run_leaves_args_unchanged:
  "heap (snd (run L a w)) = heap w \<and>
   heap (snd (for_each (\<lambda>_. run L a) [0..<5] w)) = heap w \<and>
   (\<exists>k\<le>5. calls (snd (for_each (\<lambda>_. run L a) [0..<5] w)) = calls w @ replicate k (heap w a))"
proof (intro conjI)
  show "heap (snd (run L a w)) = heap w" by (simp add: run_invoke)
  show "heap (snd (for_each (\<lambda>_. run L a) [0..<5] w)) = heap w"
    by (simp add: repeat_run plan_trace)
  from issued_take [of "replicate 5 (heap w a)" L "length (calls w)"]
  obtain k where "k \<le> 5" "issued L (length (calls w)) (replicate 5 (heap w a))
      = take k (replicate 5 (heap w a))" by auto
  then have "k \<le> 5 \<and> calls (snd (for_each (\<lambda>_. run L a) [0..<5] w)) = calls w @ replicate k (heap w a)"
    by (simp add: repeat_run plan_trace min_def)
  then show "\<exists>k\<le>5. calls (snd (for_each (\<lambda>_. run L a) [0..<5] w)) = calls w @ replicate k (heap w a)"
    by blast
qed

theorem run_leaves_args_unchanged_witness:
  "heap sample_world 0 = invocation ''prio'' ''1'' ''10000'' \<and>
   heap (snd (run steady 0 sample_world)) 0 = invocation ''prio'' ''1'' ''10000'' \<and>
   heap (snd (for_each (\<lambda>_. run steady 0) [0..<5] sample_world)) 0
     = invocation ''prio'' ''1'' ''10000''"
  using run_leaves_args_unchanged [of steady 0 sample_world]
  by (simp add: sample_world_simps)

text \<open>
  C10. That every process exits with status 0 does not fix the vectors a sweep launches:
  the environment \<open>garbled\<close> answers every launch with status 0, as \<open>steady\<close> does, and
  the sweep in it launches one vector where the sweep in \<open>steady\<close> launches all 70, since
  what \<open>garbled\<close> prints does not decode.
\<close>

theorem exit0_sweeps_differ_counterexample:
  "range (case_prod garbled) = {Exited 0 [0xFF, 0x0A] []} \<and>
   range (case_prod steady) = {Exited 0 [0x6F, 0x6B, 0x0A] [0x21]} \<and>
   calls (snd (script garbled init_world)) = take 1 sweep_plan \<and>
   calls (snd (script steady init_world)) = sweep_plan \<and>
   calls (snd (script garbled init_world)) \<noteq> calls (snd (script steady init_world))"
proof -
  have r1: "range (case_prod garbled) = {Exited 0 [0xFF, 0x0A] []}"
    by (auto simp add: garbled_def image_iff)
  have r2: "range (case_prod steady) = {Exited 0 [0x6F, 0x6B, 0x0A] [0x21]}"
    by (auto simp add: steady_def image_iff)
  have e: "calls init_world = []" by (simp add: init_world_def)
  have "attempt garbled (length (calls init_world) + 0) (sweep_plan ! 0)
          = Inl (UnicodeDecodeError (butlast [0xFF, 0x0A]))"
    by (rule attempt_undecodable [where err = "[]"]) (simp_all add: garbled_def)
  with sweep_first_failure [of 0 garbled init_world "UnicodeDecodeError (butlast [0xFF, 0x0A])"]
  have g: "calls (snd (script garbled init_world)) = take 1 sweep_plan"
    by (simp add: length_sweep_plan e)
  have s: "calls (snd (script steady init_world)) = sweep_plan"
    by (simp add: script_calls outcome_steady issued_of_Ok e)
  have "length (calls (snd (script garbled init_world))) = 1"
    by (simp add: g length_sweep_plan)
  moreover have "length (calls (snd (script steady init_world))) = 70"
    by (simp add: s length_sweep_plan)
  ultimately have "calls (snd (script garbled init_world)) \<noteq> calls (snd (script steady init_world))"
    by auto
  with r1 r2 g s show ?thesis by blast
qed

text \<open>
  C10, amended. When in each of two sweeps every launch succeeds, that is, every process
  exits with status 0 and what it printed decodes once the last byte is dropped, the two
  sweeps launch the same sequence of vectors, the constant \<open>sweep_plan\<close>, whatever the
  processes print. And whatever happens, the vectors launched by a sweep are an initial
  part of that constant.
\<close>

theorem invocations_independent_of_output:
  "((\<forall>j<70. succeeds (L1 (length (calls w1) + j) (sweep_plan ! j)))
      \<and> (\<forall>j<70. succeeds (L2 (length (calls w2) + j) (sweep_plan ! j))) \<longrightarrow>
      calls (snd (script L1 w1)) = calls w1 @ sweep_plan \<and>
      calls (snd (script L2 w2)) = calls w2 @ sweep_plan)
   \<and> (\<exists>k\<le>length sweep_plan. calls (snd (script L1 w1)) = calls w1 @ take k sweep_plan)"
proof (intro conjI impI)
  assume a: "(\<forall>j<70. succeeds (L1 (length (calls w1) + j) (sweep_plan ! j)))
      \<and> (\<forall>j<70. succeeds (L2 (length (calls w2) + j) (sweep_plan ! j)))"
  then have "outcome L1 (length (calls w1)) sweep_plan = Ok"
    and "outcome L2 (length (calls w2)) sweep_plan = Ok"
    by (simp_all add: outcome_Ok_iff length_sweep_plan)
  then show "calls (snd (script L1 w1)) = calls w1 @ sweep_plan"
    and "calls (snd (script L2 w2)) = calls w2 @ sweep_plan"
    by (simp_all add: script_calls issued_of_Ok)
next
  show "\<exists>k\<le>length sweep_plan. calls (snd (script L1 w1)) = calls w1 @ take k sweep_plan"
    by (rule script_calls_prefix)
qed

theorem invocations_independent_of_output_witness:
  "calls (snd (script steady init_world)) = sweep_plan \<and>
   calls (snd (script greeter init_world)) = sweep_plan \<and>
   console (snd (script steady init_world)) \<noteq> console (snd (script greeter init_world))"
proof -
  have good: "(\<forall>j<70. succeeds (steady (length (calls init_world) + j) (sweep_plan ! j)))
      \<and> (\<forall>j<70. succeeds (greeter (length (calls init_world) + j) (sweep_plan ! j)))"
    by (simp add: steady_succeeds greeter_succeeds)
  have e: "calls init_world = []" "console init_world = []" by (simp_all add: init_world_def)
  from invocations_independent_of_output [of steady init_world greeter init_world] good
  have c: "calls (snd (script steady init_world)) = calls init_world @ sweep_plan \<and>
           calls (snd (script greeter init_world)) = calls init_world @ sweep_plan"
    by blast
  have p1: "printed steady 0 sweep_plan = concat (replicate (length sweep_plan) ([111, 107] @ [10]))"
    by (rule printed_uniform) (simp add: attempt_steady)
  have p2: "printed greeter 0 sweep_plan
              = concat (replicate (length sweep_plan) ([104, 101, 108, 108, 111] @ [10]))"
    by (rule printed_uniform) (simp add: attempt_greeter)
  have "length (console (snd (script steady init_world))) = 210"
    by (simp add: script_console e p1 length_sweep_plan length_concat sum_list_replicate)
  moreover have "length (console (snd (script greeter init_world))) = 420"
    by (simp add: script_console e p2 length_sweep_plan length_concat sum_list_replicate)
  ultimately have d: "console (snd (script steady init_world)) \<noteq> console (snd (script greeter init_world))"
    by auto
  from c d show ?thesis by (simp add: e)
qed

end
